theory Spec2Isabelle
  imports Main "HOL-Library.Word"
begin

section \<open>JavaScript values\<close>

text \<open>
  The program is a browser script (\<^verbatim>\<open>src/app.js\<close>). Its data are JavaScript values, and
  the fields of a task read back from \<^verbatim>\<open>localStorage\<close> are whatever \<^verbatim>\<open>JSON.parse\<close>
  produced, so the model is dynamically typed as the source is.

  A string is a sequence of UTF-16 code units; \<^verbatim>\<open>length\<close> counts code units. \<open>js\<close>
  embeds an ASCII literal of the source.
\<close>

type_synonym jschar = "16 word"
type_synonym jsstring = "jschar list"

definition js :: "string \<Rightarrow> jsstring" where
  "js s = map of_char s"

text \<open>
  The values the program handles: the primitives, arrays and plain objects. An object is
  the list of its own properties, with distinct keys, in the order in which the engine
  enumerates them (OrdinaryOwnPropertyKeys). A number is kept as the JSON numeric literal
  it was read from; the literal determines the binary64 number, which the section on numbers
  computes where the program converts a number to a boolean or to a string.
\<close>

datatype jsval =
    JUndefined
  | JNull
  | JBool bool
  | JNum jsstring
  | JStr jsstring
  | JArr "jsval list"
  | JObj "(jsstring \<times> jsval) list"

datatype js_error = Error | TypeError | SyntaxError | QuotaExceededError

text \<open>
  A computation that may throw is a value of \<open>js_error + 'a\<close>; \<open>bind_err\<close> is
  sequencing: a thrown error skips the rest.
\<close>

definition bind_err :: "js_error + 'a \<Rightarrow> ('a \<Rightarrow> js_error + 'b) \<Rightarrow> js_error + 'b" where
  "bind_err m f = (case m of Inl e \<Rightarrow> Inl e | Inr x \<Rightarrow> f x)"

subsection \<open>Numbers\<close>

definition is_digit :: "jschar \<Rightarrow> bool" where
  "is_digit c = (0x30 \<le> c \<and> c \<le> 0x39)"

definition digits_value :: "jsstring \<Rightarrow> nat" where
  "digits_value ds = foldl (\<lambda>n c. 10 * n + (unat c - 48)) 0 ds"

fun decimal :: "nat \<Rightarrow> jsstring" where
  "decimal n = (if n < 10 then [of_nat (48 + n)] else decimal (n div 10) @ [of_nat (48 + n mod 10)])"

declare decimal.simps [simp del]

text \<open>
  The decimal value of a numeric literal \<open>[-] int [. frac] [(e|E) [+|-] digits]\<close>: the
  result \<open>(negative, d, k)\<close> stands for \<open>d * 10^k\<close> with the sign.
\<close>

definition literal_value :: "jsstring \<Rightarrow> bool \<times> nat \<times> int" where
  "literal_value lit =
     (let negative = (take 1 lit = [0x2D]);
          body = (if negative then drop 1 lit else lit);
          mant = takeWhile (\<lambda>c. c \<noteq> 0x65 \<and> c \<noteq> 0x45) body;
          expo = drop (length mant + 1) body;
          ip = takeWhile (\<lambda>c. c \<noteq> 0x2E) mant;
          fp = drop (length ip + 1) mant;
          e = (case expo of
                 [] \<Rightarrow> 0
               | c # cs \<Rightarrow> if c = 0x2D then - int (digits_value cs)
                          else if c = 0x2B then int (digits_value cs)
                          else int (digits_value expo))
      in (negative, digits_value (ip @ fp), e - int (length fp)))"

text \<open>
  The absolute value of a binary64 number: zero, infinite, or \<open>Finite m e\<close> for
  \<open>m * 2^e\<close>, where \<open>2^52 \<le> m < 2^53\<close> and \<open>-1074 \<le> e \<le> 971\<close> (a normal number) or
  \<open>0 < m < 2^52\<close> and \<open>e = -1074\<close> (a subnormal one).

  A positive rational is a pair of a numerator and a denominator. \<open>scaled b q e\<close> is
  \<open>q / b^e\<close>; \<open>floor_log b q\<close> is the integer \<open>l\<close> with \<open>b^l \<le> q < b^(l+1)\<close>, which
  is the difference of the numbers of digits of numerator and denominator or one less.
\<close>

datatype magnitude = Zero | Finite nat int | Infinite

fun digit_count :: "nat \<Rightarrow> nat \<Rightarrow> nat" where
  "digit_count b n = (if n = 0 \<or> b < 2 then 0 else Suc (digit_count b (n div b)))"

declare digit_count.simps [simp del]

definition scaled :: "nat \<Rightarrow> nat \<times> nat \<Rightarrow> int \<Rightarrow> nat \<times> nat" where
  "scaled b q e = (if 0 \<le> e then (fst q, snd q * b ^ nat e) else (fst q * b ^ nat (- e), snd q))"

definition floor_log :: "nat \<Rightarrow> nat \<times> nat \<Rightarrow> int" where
  "floor_log b q =
     (let l = int (digit_count b (fst q)) - int (digit_count b (snd q));
          s = scaled b q l
      in if snd s \<le> fst s then l else l - 1)"

definition round_half_even :: "nat \<times> nat \<Rightarrow> nat" where
  "round_half_even q =
     (let n = fst q div snd q; r = fst q mod snd q
      in if 2 * r < snd q then n
         else if snd q < 2 * r then n + 1
         else if even n then n else n + 1)"

text \<open>
  The binary64 number nearest to \<open>d * 10^k\<close>, a tie going to the even significand
  (the rounding of a numeric literal, and of \<^verbatim>\<open>JSON.parse\<close>): the exponent is that of a
  53-bit significand, or the least exponent; a significand rounded up to \<open>2^53\<close> takes
  the next exponent; beyond the greatest exponent the number is infinite.
\<close>

definition to_binary64 :: "nat \<Rightarrow> int \<Rightarrow> magnitude" where
  "to_binary64 d k =
     (if d = 0 then Zero
      else
        (let q = scaled 10 (d, 1) (- k);
             e = max (floor_log 2 q - 52) (- 1074);
             m = round_half_even (scaled 2 q e);
             m' = (if m = 2 ^ 53 then 2 ^ 52 else m);
             e' = (if m = 2 ^ 53 then e + 1 else e)
         in if m = 0 then Zero else if 971 < e' then Infinite else Finite m' e'))"

text \<open>
  Number::toString. The digits are those of the decimal \<open>s * 10^x\<close> with the fewest
  digits that rounds to the number, the nearest to it if there are several, the even one of
  two equally near. \<open>candidates m e k\<close> are the two decimals of \<open>k\<close> digits around
  \<open>m * 2^e\<close>, the nearer first; seventeen digits always suffice. \<open>digits_to_string\<close>
  lays out the digits \<open>ds\<close> of a number \<open>0.ds * 10^n\<close>.
\<close>

definition candidates :: "nat \<Rightarrow> int \<Rightarrow> nat \<Rightarrow> (nat \<times> int) list" where
  "candidates m e k =
     (let v = scaled 2 (m, 1) (- e);
          x = floor_log 10 v + 1 - int k;
          q = scaled 10 v x;
          low = fst q div snd q;
          r = fst q mod snd q
      in if 2 * r < snd q \<or> (2 * r = snd q \<and> even low) then [(low, x), (low + 1, x)]
         else [(low + 1, x), (low, x)])"

definition shortest_decimal :: "nat \<Rightarrow> int \<Rightarrow> nat \<times> int" where
  "shortest_decimal m e =
     (case find (\<lambda>c. to_binary64 (fst c) (snd c) = Finite m e)
             (concat (map (candidates m e) [1 ..< 18])) of
        Some c \<Rightarrow> c
      | None \<Rightarrow> hd (candidates m e 17))"

definition digits_to_string :: "jsstring \<Rightarrow> int \<Rightarrow> jsstring" where
  "digits_to_string ds n =
     (let k = int (length ds)
      in if k \<le> n \<and> n \<le> 21 then ds @ replicate (nat (n - k)) 0x30
         else if 0 < n \<and> n \<le> 21 then take (nat n) ds @ 0x2E # drop (nat n) ds
         else if - 6 < n \<and> n \<le> 0 then [0x30, 0x2E] @ replicate (nat (- n)) 0x30 @ ds
         else (if k = 1 then ds else hd ds # 0x2E # tl ds)
              @ [0x65, if n - 1 < 0 then 0x2D else 0x2B] @ decimal (nat \<bar>n - 1\<bar>))"

definition literal_magnitude :: "jsstring \<Rightarrow> magnitude" where
  "literal_magnitude lit = (case literal_value lit of (negative, d, k) \<Rightarrow> to_binary64 d k)"

definition Number_toString :: "jsstring \<Rightarrow> jsstring" where
  "Number_toString lit =
     (case literal_value lit of (negative, d, k) \<Rightarrow>
        (case to_binary64 d k of
           Zero \<Rightarrow> js ''0''
         | Infinite \<Rightarrow> (if negative then js ''-Infinity'' else js ''Infinity'')
         | Finite m e \<Rightarrow>
             (let c = shortest_decimal m e;
                  ds = decimal (fst c);
                  n = snd c + int (length ds)
              in (if negative then [0x2D] else [])
                 @ digits_to_string (rev (dropWhile (\<lambda>z. z = 0x30) (rev ds))) n)))"

subsection \<open>Truthiness (ToBoolean)\<close>

text \<open>A number is falsy when it is \<open>+0\<close> or \<open>-0\<close> (\<^verbatim>\<open>NaN\<close> has no literal).\<close>

fun js_truthy :: "jsval \<Rightarrow> bool" where
  "js_truthy JUndefined = False"
| "js_truthy JNull = False"
| "js_truthy (JBool b) = b"
| "js_truthy (JNum n) = (literal_magnitude n \<noteq> Zero)"
| "js_truthy (JStr s) = (s \<noteq> [])"
| "js_truthy (JArr vs) = True"
| "js_truthy (JObj kvs) = True"

subsection \<open>String.prototype.trim\<close>

text \<open>
  \<^verbatim>\<open>trim\<close> removes the code units of WhiteSpace and LineTerminator from both ends: TAB,
  LF, VT, FF, CR, SP, NBSP, the Unicode space separators, LS, PS and the byte order mark.
\<close>

definition is_whitespace :: "jschar \<Rightarrow> bool" where
  "is_whitespace c =
     ((0x09 \<le> c \<and> c \<le> 0x0D) \<or> c = 0x20 \<or> c = 0xA0 \<or> c = 0x1680
      \<or> (0x2000 \<le> c \<and> c \<le> 0x200A) \<or> c = 0x2028 \<or> c = 0x2029 \<or> c = 0x202F
      \<or> c = 0x205F \<or> c = 0x3000 \<or> c = 0xFEFF)"

definition trim :: "jsstring \<Rightarrow> jsstring" where
  "trim s = rev (dropWhile is_whitespace (rev (dropWhile is_whitespace s)))"

subsection \<open>Property access\<close>

text \<open>
  \<^verbatim>\<open>obj.name\<close>: reading a property of \<^verbatim>\<open>null\<close> or \<^verbatim>\<open>undefined\<close> throws a TypeError; a
  plain object gives its own property or \<^verbatim>\<open>undefined\<close>. The names the program reads
  (\<^verbatim>\<open>tasks\<close>, \<^verbatim>\<open>settings\<close>, \<^verbatim>\<open>currentFilter\<close>, \<^verbatim>\<open>version\<close>, \<^verbatim>\<open>lastSaved\<close>, \<^verbatim>\<open>id\<close>,
  \<^verbatim>\<open>text\<close>, \<^verbatim>\<open>completed\<close>, \<^verbatim>\<open>createdAt\<close>, \<^verbatim>\<open>updatedAt\<close>) are not defined on any
  built-in prototype, so every other value gives \<^verbatim>\<open>undefined\<close> for them.
\<close>

fun get_prop :: "jsval \<Rightarrow> jsstring \<Rightarrow> js_error + jsval" where
  "get_prop JUndefined k = Inl TypeError"
| "get_prop JNull k = Inl TypeError"
| "get_prop (JObj kvs) k = Inr (case map_of kvs k of None \<Rightarrow> JUndefined | Some v \<Rightarrow> v)"
| "get_prop v k = Inr JUndefined"

subsection \<open>ToString\<close>

text \<open>
  The conversion a template literal applies to a substitution. The values here are those
  \<^verbatim>\<open>JSON.parse\<close> gives, so no property is a function. An array is converted by
  \<^verbatim>\<open>Array.prototype.join\<close>: its elements converted and joined with commas, \<^verbatim>\<open>null\<close> and
  \<^verbatim>\<open>undefined\<close> giving the empty string. A plain object is converted by
  \<^verbatim>\<open>Object.prototype.toString\<close>, unless it has an own property \<^verbatim>\<open>toString\<close>: that one is
  not callable, and \<^verbatim>\<open>valueOf\<close> (an own property, not callable, or
  \<^verbatim>\<open>Object.prototype.valueOf\<close>, which returns the object) gives no primitive value, so
  the conversion throws a TypeError.
\<close>

fun join :: "jsstring list \<Rightarrow> jsstring" where
  "join [] = []"
| "join [x] = x"
| "join (x # y # ys) = x @ 0x2C # join (y # ys)"

fun ToString :: "jsval \<Rightarrow> js_error + jsstring"
  and element_strings :: "jsval list \<Rightarrow> js_error + jsstring list"
where
  "ToString JUndefined = Inr (js ''undefined'')"
| "ToString JNull = Inr (js ''null'')"
| "ToString (JBool b) = Inr (if b then js ''true'' else js ''false'')"
| "ToString (JNum n) = Inr (Number_toString n)"
| "ToString (JStr s) = Inr s"
| "ToString (JArr vs) = bind_err (element_strings vs) (\<lambda>ss. Inr (join ss))"
| "ToString (JObj kvs) =
     (case map_of kvs (js ''toString'') of
        None \<Rightarrow> Inr (js ''[object Object]'')
      | Some f \<Rightarrow> Inl TypeError)"
| "element_strings [] = Inr []"
| "element_strings (v # vs) =
     bind_err (if v = JUndefined \<or> v = JNull then Inr [] else ToString v) (\<lambda>s.
     bind_err (element_strings vs) (\<lambda>ss. Inr (s # ss)))"

section \<open>Task\<close>

text \<open>
  \<^verbatim>\<open>class Task\<close>: the five fields the constructor and \<^verbatim>\<open>Task.fromObject\<close> assign. The
  fields \<^verbatim>\<open>id\<close> and \<^verbatim>\<open>text\<close> of the source are \<open>id'\<close> and \<open>text'\<close> here.
\<close>

record Task =
  id' :: jsval
  text' :: jsval
  completed :: jsval
  createdAt :: jsval
  updatedAt :: jsval

text \<open>
  What an operation reads from the clock and the random generator. Each reading is an
  input of the model: \<^verbatim>\<open>Date.now()\<close> and
  \<^verbatim>\<open>Math.random().toString(36).substr(2, 9)\<close> in the constructor, and the results of
  \<^verbatim>\<open>new Date().toISOString()\<close> at \<^verbatim>\<open>createdAt\<close>, at \<^verbatim>\<open>updatedAt\<close> and at
  \<^verbatim>\<open>lastSaved\<close>.
\<close>

record readings =
  Date_now :: nat
  Math_random :: jsstring
  iso_createdAt :: jsstring
  iso_updatedAt :: jsstring
  iso_lastSaved :: jsstring

text \<open>\<^verbatim>\<open>static isValidText(text)\<close>\<close>

fun isValidText :: "jsval \<Rightarrow> bool" where
  "isValidText (JStr s) = (0 < length (trim s) \<and> length (trim s) \<le> 500)"
| "isValidText v = False"

text \<open>
  \<^verbatim>\<open>constructor(text)\<close>: throws an Error on invalid text. \<^verbatim>\<open>text.trim()\<close> is only reached
  for a string.
\<close>

fun new_Task :: "readings \<Rightarrow> jsval \<Rightarrow> js_error + Task" where
  "new_Task r (JStr s) =
     (if \<not> isValidText (JStr s) then Inl Error
      else Inr \<lparr> id' = JStr (js ''task_'' @ decimal (Date_now r) @ js ''_'' @ Math_random r),
                 text' = JStr (trim s),
                 completed = JBool False,
                 createdAt = JStr (iso_createdAt r),
                 updatedAt = JStr (iso_updatedAt r) \<rparr>)"
| "new_Task r v = Inl Error"

text \<open>\<^verbatim>\<open>toggle()\<close>\<close>

definition toggle :: "readings \<Rightarrow> Task \<Rightarrow> Task" where
  "toggle r t = t\<lparr> completed := JBool (\<not> js_truthy (completed t)),
                   updatedAt := JStr (iso_updatedAt r) \<rparr>"

text \<open>\<^verbatim>\<open>updateText(newText)\<close>: throws before it assigns anything.\<close>

fun updateText :: "readings \<Rightarrow> jsval \<Rightarrow> Task \<Rightarrow> js_error + Task" where
  "updateText r (JStr s) t =
     (if \<not> isValidText (JStr s) then Inl Error
      else Inr (t\<lparr> text' := JStr (trim s), updatedAt := JStr (iso_updatedAt r) \<rparr>))"
| "updateText r v t = Inl Error"

text \<open>\<^verbatim>\<open>toObject()\<close> and \<^verbatim>\<open>static fromObject(obj)\<close>\<close>

definition toObject :: "Task \<Rightarrow> jsval" where
  "toObject t = JObj [(js ''id'', id' t), (js ''text'', text' t),
                      (js ''completed'', completed t), (js ''createdAt'', createdAt t),
                      (js ''updatedAt'', updatedAt t)]"

definition fromObject :: "jsval \<Rightarrow> js_error + Task" where
  "fromObject obj =
     bind_err (get_prop obj (js ''id'')) (\<lambda>i.
     bind_err (get_prop obj (js ''text'')) (\<lambda>x.
     bind_err (get_prop obj (js ''completed'')) (\<lambda>c.
     bind_err (get_prop obj (js ''createdAt'')) (\<lambda>ca.
     bind_err (get_prop obj (js ''updatedAt'')) (\<lambda>ua.
       Inr \<lparr> id' = i, text' = x, completed = c, createdAt = ca, updatedAt = ua \<rparr>)))))"

section \<open>JSON\<close>

subsection \<open>JSON.stringify\<close>

text \<open>
  \<^verbatim>\<open>JSON.stringify(value)\<close> with no replacer and no indentation. QuoteJSONString writes
  the two-character escapes for backspace, tab, line feed, form feed, carriage return, the
  double quote and the backslash, a \<^verbatim>\<open>\uXXXX\<close> escape (lower-case digits) for every other
  code unit below \<^verbatim>\<open>0x20\<close> and for a surrogate that has no partner, and every other code
  unit as it is.
\<close>

definition hex_digit :: "nat \<Rightarrow> jschar" where
  "hex_digit n = (if n < 10 then of_nat (48 + n) else of_nat (87 + n))"

definition unicode_escape :: "jschar \<Rightarrow> jsstring" where
  "unicode_escape c =
     [0x5C, 0x75, hex_digit (unat c div 4096), hex_digit (unat c div 256 mod 16),
      hex_digit (unat c div 16 mod 16), hex_digit (unat c mod 16)]"

definition is_high_surrogate :: "jschar \<Rightarrow> bool" where
  "is_high_surrogate c = (0xD800 \<le> c \<and> c \<le> 0xDBFF)"

definition is_low_surrogate :: "jschar \<Rightarrow> bool" where
  "is_low_surrogate c = (0xDC00 \<le> c \<and> c \<le> 0xDFFF)"

fun quote_chars :: "jsstring \<Rightarrow> jsstring" where
  "quote_chars [] = []"
| "quote_chars (c # cs) =
     (if c = 0x08 then [0x5C, 0x62] @ quote_chars cs
      else if c = 0x09 then [0x5C, 0x74] @ quote_chars cs
      else if c = 0x0A then [0x5C, 0x6E] @ quote_chars cs
      else if c = 0x0C then [0x5C, 0x66] @ quote_chars cs
      else if c = 0x0D then [0x5C, 0x72] @ quote_chars cs
      else if c = 0x22 then [0x5C, 0x22] @ quote_chars cs
      else if c = 0x5C then [0x5C, 0x5C] @ quote_chars cs
      else if c < 0x20 then unicode_escape c @ quote_chars cs
      else if is_high_surrogate c then
        (case cs of
           [] \<Rightarrow> unicode_escape c
         | d # ds \<Rightarrow> if is_low_surrogate d then c # d # quote_chars ds
                     else unicode_escape c @ quote_chars cs)
      else if is_low_surrogate c then unicode_escape c @ quote_chars cs
      else c # quote_chars cs)"

definition QuoteJSONString :: "jsstring \<Rightarrow> jsstring" where
  "QuoteJSONString s = 0x22 # quote_chars s @ [0x22]"

text \<open>
  SerializeJSONProperty gives no text (\<^verbatim>\<open>undefined\<close>) for \<^verbatim>\<open>undefined\<close>; an array
  writes \<^verbatim>\<open>null\<close> for such an element and an object leaves such a property out. A
  finite number is written by Number::toString and an infinite one as \<^verbatim>\<open>null\<close>. The
  properties of an object are written in the order of its keys. No value here has a
  callable \<^verbatim>\<open>toJSON\<close>.
\<close>

fun SerializeJSONProperty :: "jsval \<Rightarrow> jsstring option"
  and serialize_elements :: "jsval list \<Rightarrow> jsstring list"
  and serialize_properties :: "(jsstring \<times> jsval) list \<Rightarrow> jsstring list"
where
  "SerializeJSONProperty JUndefined = None"
| "SerializeJSONProperty JNull = Some (js ''null'')"
| "SerializeJSONProperty (JBool b) = Some (if b then js ''true'' else js ''false'')"
| "SerializeJSONProperty (JNum n) =
     Some (if literal_magnitude n = Infinite then js ''null'' else Number_toString n)"
| "SerializeJSONProperty (JStr s) = Some (QuoteJSONString s)"
| "SerializeJSONProperty (JArr vs) = Some (0x5B # join (serialize_elements vs) @ [0x5D])"
| "SerializeJSONProperty (JObj kvs) = Some (0x7B # join (serialize_properties kvs) @ [0x7D])"
| "serialize_elements [] = []"
| "serialize_elements (v # vs) =
     (case SerializeJSONProperty v of None \<Rightarrow> js ''null'' | Some s \<Rightarrow> s) # serialize_elements vs"
| "serialize_properties [] = []"
| "serialize_properties ((k, v) # kvs) =
     (case SerializeJSONProperty v of
        None \<Rightarrow> serialize_properties kvs
      | Some s \<Rightarrow> (QuoteJSONString k @ 0x3A # s) # serialize_properties kvs)"

definition JSON_stringify :: "jsval \<Rightarrow> jsstring option" where
  "JSON_stringify v = SerializeJSONProperty v"

subsection \<open>JSON.parse\<close>

text \<open>
  \<^verbatim>\<open>JSON.parse(text)\<close> with no reviver, as a recursive-descent parser of the JSON grammar.
  Each function returns what it read and the rest of the input, or \<open>None\<close> where
  \<^verbatim>\<open>JSON.parse\<close> throws a SyntaxError.
\<close>

definition is_json_ws :: "jschar \<Rightarrow> bool" where
  "is_json_ws c = (c = 0x20 \<or> c = 0x09 \<or> c = 0x0A \<or> c = 0x0D)"

definition skip_ws :: "jsstring \<Rightarrow> jsstring" where
  "skip_ws s = dropWhile is_json_ws s"

definition hex_value :: "jschar \<Rightarrow> nat option" where
  "hex_value c =
     (if 0x30 \<le> c \<and> c \<le> 0x39 then Some (unat c - 48)
      else if 0x61 \<le> c \<and> c \<le> 0x66 then Some (unat c - 87)
      else if 0x41 \<le> c \<and> c \<le> 0x46 then Some (unat c - 55)
      else None)"

definition hex4 :: "jschar \<Rightarrow> jschar \<Rightarrow> jschar \<Rightarrow> jschar \<Rightarrow> jschar option" where
  "hex4 a b c d =
     (case (hex_value a, hex_value b, hex_value c, hex_value d) of
        (Some w, Some x, Some y, Some z) \<Rightarrow> Some (of_nat (4096 * w + 256 * x + 16 * y + z))
      | _ \<Rightarrow> None)"

definition unescape :: "jschar \<Rightarrow> jschar option" where
  "unescape e =
     (if e = 0x22 then Some 0x22
      else if e = 0x5C then Some 0x5C
      else if e = 0x2F then Some 0x2F
      else if e = 0x62 then Some 0x08
      else if e = 0x66 then Some 0x0C
      else if e = 0x6E then Some 0x0A
      else if e = 0x72 then Some 0x0D
      else if e = 0x74 then Some 0x09
      else None)"

definition cons_result :: "'a \<Rightarrow> ('a list \<times> 'b) option \<Rightarrow> ('a list \<times> 'b) option" where
  "cons_result x r = (case r of None \<Rightarrow> None | Some (xs, rest) \<Rightarrow> Some (x # xs, rest))"

fun parse_string_chars :: "jsstring \<Rightarrow> (jsstring \<times> jsstring) option" where
  "parse_string_chars [] = None"
| "parse_string_chars (c # cs) =
     (if c = 0x22 then Some ([], cs)
      else if c = 0x5C then
        (case cs of
           [] \<Rightarrow> None
         | e # es \<Rightarrow>
             if e = 0x75 then
               (case es of
                  h1 # h2 # h3 # h4 # rest \<Rightarrow>
                    (case hex4 h1 h2 h3 h4 of
                       None \<Rightarrow> None
                     | Some u \<Rightarrow> cons_result u (parse_string_chars rest))
                | _ \<Rightarrow> None)
             else
               (case unescape e of
                  None \<Rightarrow> None
                | Some u \<Rightarrow> cons_result u (parse_string_chars es)))
      else if c < 0x20 then None
      else cons_result c (parse_string_chars cs))"

definition parse_number :: "jsstring \<Rightarrow> (jsstring \<times> jsstring) option" where
  "parse_number s =
     (let sgn = (case s of c # cs \<Rightarrow> if c = 0x2D then [c] else [] | [] \<Rightarrow> []);
          s1 = drop (length sgn) s;
          ip = takeWhile is_digit s1;
          s2 = dropWhile is_digit s1;
          frac = (case s2 of c # cs \<Rightarrow> if c = 0x2E then c # takeWhile is_digit cs else [] | [] \<Rightarrow> []);
          s3 = drop (length frac) s2;
          expo = (case s3 of
                    c # cs \<Rightarrow>
                      if c = 0x65 \<or> c = 0x45 then
                        (case cs of
                           d # ds \<Rightarrow> if d = 0x2B \<or> d = 0x2D then c # d # takeWhile is_digit ds
                                     else c # takeWhile is_digit cs
                         | [] \<Rightarrow> [c])
                      else []
                  | [] \<Rightarrow> []);
          s4 = drop (length expo) s3
      in if ip = [] \<or> (1 < length ip \<and> hd ip = 0x30) then None
         else if frac = [0x2E] then None
         else if expo \<noteq> [] \<and> \<not> is_digit (last expo) then None
         else Some (sgn @ ip @ frac @ expo, s4))"

text \<open>
  A property of an object literal is created in textual order; a key that is already
  there keeps its place and takes the new value. The keys of the object are then
  enumerated as OrdinaryOwnPropertyKeys has them: first the array indices (the decimal
  numerals, with no leading zero, of the integers below \<open>2^32 - 1\<close>) in ascending
  order, then the other keys in the order of creation.
\<close>

fun put_property :: "jsstring \<Rightarrow> jsval \<Rightarrow> (jsstring \<times> jsval) list \<Rightarrow> (jsstring \<times> jsval) list" where
  "put_property k v [] = [(k, v)]"
| "put_property k v ((k', v') # ps) =
     (if k' = k then (k, v) # ps else (k', v') # put_property k v ps)"

fun define_properties :: "(jsstring \<times> jsval) list \<Rightarrow> (jsstring \<times> jsval) list \<Rightarrow> (jsstring \<times> jsval) list" where
  "define_properties obj [] = obj"
| "define_properties obj ((k, v) # kvs) = define_properties (put_property k v obj) kvs"

definition is_array_index :: "jsstring \<Rightarrow> bool" where
  "is_array_index k =
     (k \<noteq> [] \<and> list_all is_digit k \<and> (k = [0x30] \<or> hd k \<noteq> 0x30)
      \<and> digits_value k < 2 ^ 32 - 1)"

definition own_property_order :: "(jsstring \<times> jsval) list \<Rightarrow> (jsstring \<times> jsval) list" where
  "own_property_order ps =
     sort_key (\<lambda>p. digits_value (fst p)) (filter (\<lambda>p. is_array_index (fst p)) ps)
     @ filter (\<lambda>p. \<not> is_array_index (fst p)) ps"

text \<open>
  The tests \<open>length r < length s\<close> after a recursive call make the recursion well
  founded by the length of the input. They never fail, since a value is at least one code
  unit: \<open>parser_consumes\<close> below proves it, and \<open>parse_elements_unguarded\<close> and
  \<open>parse_members_unguarded\<close> are the equations of the parser without the tests.
\<close>

function parse_value :: "jsstring \<Rightarrow> (jsval \<times> jsstring) option"
  and parse_elements :: "jsstring \<Rightarrow> (jsval list \<times> jsstring) option"
  and parse_members :: "jsstring \<Rightarrow> ((jsstring \<times> jsval) list \<times> jsstring) option"
where
  "parse_value s =
     (case skip_ws s of
        [] \<Rightarrow> None
      | c # cs \<Rightarrow>
          if c = 0x7B then
            (case skip_ws cs of
               [] \<Rightarrow> None
             | d # ds \<Rightarrow>
                 if d = 0x7D then Some (JObj [], ds)
                 else (case parse_members (d # ds) of
                         None \<Rightarrow> None
                       | Some (kvs, r) \<Rightarrow>
                           Some (JObj (own_property_order (define_properties [] kvs)), r)))
          else if c = 0x5B then
            (case skip_ws cs of
               [] \<Rightarrow> None
             | d # ds \<Rightarrow>
                 if d = 0x5D then Some (JArr [], ds)
                 else (case parse_elements (d # ds) of
                         None \<Rightarrow> None
                       | Some (vs, r) \<Rightarrow> Some (JArr vs, r)))
          else if c = 0x22 then
            (case parse_string_chars cs of None \<Rightarrow> None | Some (str, r) \<Rightarrow> Some (JStr str, r))
          else if c = 0x2D \<or> is_digit c then
            (case parse_number (c # cs) of None \<Rightarrow> None | Some (n, r) \<Rightarrow> Some (JNum n, r))
          else if take 4 (c # cs) = js ''true'' then Some (JBool True, drop 4 (c # cs))
          else if take 5 (c # cs) = js ''false'' then Some (JBool False, drop 5 (c # cs))
          else if take 4 (c # cs) = js ''null'' then Some (JNull, drop 4 (c # cs))
          else None)"
| "parse_elements s =
     (case parse_value s of
        None \<Rightarrow> None
      | Some (v, r) \<Rightarrow>
          if length r < length s then
            (case skip_ws r of
               [] \<Rightarrow> None
             | c # cs \<Rightarrow>
                 if c = 0x2C then cons_result v (parse_elements cs)
                 else if c = 0x5D then Some ([v], cs)
                 else None)
          else None)"
| "parse_members s =
     (case skip_ws s of
        [] \<Rightarrow> None
      | q # s1 \<Rightarrow>
          if q \<noteq> 0x22 then None
          else
            (case parse_string_chars s1 of
               None \<Rightarrow> None
             | Some (k, s2) \<Rightarrow>
                 (case skip_ws s2 of
                    [] \<Rightarrow> None
                  | c # s3 \<Rightarrow>
                      if c \<noteq> 0x3A then None
                      else
                        (case parse_value s3 of
                           None \<Rightarrow> None
                         | Some (v, r) \<Rightarrow>
                             if length r < length s3 then
                               (case skip_ws r of
                                  [] \<Rightarrow> None
                                | d # ds \<Rightarrow>
                                    if d = 0x2C then cons_result (k, v) (parse_members ds)
                                    else if d = 0x7D then Some ([(k, v)], ds)
                                    else None)
                             else None))))"
  by pat_completeness auto
termination
proof -
  have dw: "length cs < length s" if "dropWhile P s = c # cs" for P and s :: jsstring and c cs
  proof -
    have "length (c # cs) \<le> length s"
      using length_dropWhile_le [of P s] that by simp
    then show ?thesis by simp
  qed
  have ps: "length r < length s" if "parse_string_chars s = Some (k, r)" for s k r
    using that
  proof (induction s arbitrary: k rule: parse_string_chars.induct)
    case 1
    then show ?case by simp
  next
    case (2 c cs)
    then show ?case
      by (fastforce simp: cons_result_def split: if_splits list.splits option.splits)
  qed
  show ?thesis
    apply (relation "measure (\<lambda>x. case x of Inl s \<Rightarrow> 2 * length s
                                     | Inr (Inl s) \<Rightarrow> 2 * length s + 1
                                     | Inr (Inr s) \<Rightarrow> 2 * length s + 1)")
    apply (auto simp: skip_ws_def dest!: dw ps)
    done
qed

declare parse_value.simps [simp del] parse_elements.simps [simp del] parse_members.simps [simp del]

definition JSON_parse :: "jsstring \<Rightarrow> js_error + jsval" where
  "JSON_parse s =
     (case parse_value s of
        None \<Rightarrow> Inl SyntaxError
      | Some (v, r) \<Rightarrow> if skip_ws r = [] then Inr v else Inl SyntaxError)"

section \<open>localStorage\<close>

text \<open>
  The one key the program uses, \<^verbatim>\<open>'todoApp'\<close>. \<open>available\<close> is the outcome of the test
  \<^verbatim>\<open>typeof Storage === 'undefined' || !localStorage\<close>; \<open>quota\<close> is the longest value the
  browser accepts under the key: \<^verbatim>\<open>setItem\<close> throws a QuotaExceededError for a longer one.
\<close>

record localStorage =
  available :: bool
  quota :: nat
  todoApp :: "jsstring option"

definition getItem :: "localStorage \<Rightarrow> jsstring option" where
  "getItem ls = todoApp ls"

definition setItem :: "jsstring \<Rightarrow> localStorage \<Rightarrow> js_error + localStorage" where
  "setItem v ls = (if length v \<le> quota ls then Inr (ls\<lparr> todoApp := Some v \<rparr>)
                   else Inl QuotaExceededError)"

definition removeItem :: "localStorage \<Rightarrow> localStorage" where
  "removeItem ls = ls\<lparr> todoApp := None \<rparr>"

section \<open>TaskList\<close>

text \<open>
  The state of the running application: \<^verbatim>\<open>this.tasks\<close> of the one instance
  \<^verbatim>\<open>todoApp\<close>, \<^verbatim>\<open>appState.currentFilter\<close>, and the browser's storage. The DOM and the
  console are not part of the state: \<^verbatim>\<open>renderTasks\<close>, \<^verbatim>\<open>updateFilterButtons\<close> and the
  logging calls write only there, and \<^verbatim>\<open>renderTasks\<close> catches what it throws.

  In this section a task is a value. The methods of \<^verbatim>\<open>TaskList\<close> keep every object of
  \<^verbatim>\<open>this.tasks\<close> at one place of the array (\<^verbatim>\<open>push\<close> of a new object, \<^verbatim>\<open>filter\<close>,
  \<^verbatim>\<open>map\<close> to new objects), so the in-place mutation of the object \<^verbatim>\<open>find\<close> returned is
  the update of the list at the position of the first match. References are modelled in
  the section on the heap below.
\<close>

record state =
  tasks :: "Task list"
  currentFilter :: jsval
  storage :: localStorage

fun find_index :: "('a \<Rightarrow> bool) \<Rightarrow> 'a list \<Rightarrow> nat option" where
  "find_index P [] = None"
| "find_index P (x # xs) = (if P x then Some 0 else map_option Suc (find_index P xs))"

text \<open>
  \<^verbatim>\<open>this.tasks.find(t => t.id === id)\<close>: the position of the object it returns. The
  callers pass the string of a \<^verbatim>\<open>data-task-id\<close> attribute as \<^verbatim>\<open>id\<close>, so \<^verbatim>\<open>t.id === id\<close>
  holds exactly when \<^verbatim>\<open>t.id\<close> is that string.
\<close>

definition find_by_id :: "jsstring \<Rightarrow> Task list \<Rightarrow> nat option" where
  "find_by_id i ts = find_index (\<lambda>t. id' t = JStr i) ts"

text \<open>
  \<^verbatim>\<open>saveToStorage()\<close>: the \<^verbatim>\<open>catch\<close> turns the error of \<^verbatim>\<open>setItem\<close> into the result
  \<^verbatim>\<open>false\<close>. \<^verbatim>\<open>setItem\<close> stores the string of its argument, \<^verbatim>\<open>"undefined"\<close> for
  \<^verbatim>\<open>undefined\<close>.
\<close>

definition dataToSave :: "readings \<Rightarrow> state \<Rightarrow> jsval" where
  "dataToSave r st =
     JObj [(js ''tasks'', JArr (map toObject (tasks st))),
           (js ''version'', JStr (js ''1.0.0'')),
           (js ''lastSaved'', JStr (iso_lastSaved r)),
           (js ''settings'', JObj [(js ''currentFilter'', currentFilter st)])]"

definition saveToStorage :: "readings \<Rightarrow> state \<Rightarrow> bool \<times> state" where
  "saveToStorage r st =
     (if \<not> available (storage st) then (False, st)
      else
        (case setItem (case JSON_stringify (dataToSave r st) of
                         None \<Rightarrow> js ''undefined''
                       | Some s \<Rightarrow> s) (storage st) of
           Inl e \<Rightarrow> (False, st)
         | Inr ls \<Rightarrow> (True, st\<lparr> storage := ls \<rparr>)))"

text \<open>
  \<^verbatim>\<open>addTask(text)\<close>. The result \<open>None\<close> is \<^verbatim>\<open>null\<close>. \<^verbatim>\<open>saveToStorage\<close> and
  \<^verbatim>\<open>renderTasks\<close> catch their own errors, so after the \<^verbatim>\<open>push\<close> nothing reaches the
  \<^verbatim>\<open>catch\<close> of \<^verbatim>\<open>addTask\<close>.
\<close>

definition addTask :: "readings \<Rightarrow> jsval \<Rightarrow> state \<Rightarrow> Task option \<times> state" where
  "addTask r txt st =
     (if \<not> isValidText txt then (None, st)
      else
        (case new_Task r txt of
           Inl e \<Rightarrow> (None, st)
         | Inr task \<Rightarrow>
             (Some task, snd (saveToStorage r (st\<lparr> tasks := tasks st @ [task] \<rparr>)))))"

text \<open>
  \<^verbatim>\<open>deleteTask(id)\<close>, \<^verbatim>\<open>toggleTask(id)\<close> and \<^verbatim>\<open>editTask(id, newText)\<close>. Nothing in
  their \<^verbatim>\<open>try\<close> blocks throws but \<^verbatim>\<open>updateText\<close>, which \<^verbatim>\<open>editTask\<close> turns into
  \<^verbatim>\<open>null\<close>.
\<close>

definition deleteTask :: "readings \<Rightarrow> jsstring \<Rightarrow> state \<Rightarrow> bool \<times> state" where
  "deleteTask r i st =
     (let initialLength = length (tasks st);
          st1 = st\<lparr> tasks := filter (\<lambda>task. id' task \<noteq> JStr i) (tasks st) \<rparr>;
          deleted = (length (tasks st1) < initialLength)
      in if deleted then (True, snd (saveToStorage r st1)) else (False, st1))"

definition toggleTask :: "readings \<Rightarrow> jsstring \<Rightarrow> state \<Rightarrow> Task option \<times> state" where
  "toggleTask r i st =
     (case find_by_id i (tasks st) of
        None \<Rightarrow> (None, st)
      | Some n \<Rightarrow>
          (let task = toggle r (tasks st ! n)
           in (Some task, snd (saveToStorage r (st\<lparr> tasks := (tasks st)[n := task] \<rparr>)))))"

definition editTask :: "readings \<Rightarrow> jsstring \<Rightarrow> jsval \<Rightarrow> state \<Rightarrow> Task option \<times> state" where
  "editTask r i newText st =
     (case find_by_id i (tasks st) of
        None \<Rightarrow> (None, st)
      | Some n \<Rightarrow>
          (case updateText r newText (tasks st ! n) of
             Inl e \<Rightarrow> (None, st)
           | Inr task \<Rightarrow> (Some task, st\<lparr> tasks := (tasks st)[n := task] \<rparr>)))"

text \<open>\<^verbatim>\<open>getAllTasks()\<close> and \<^verbatim>\<open>getFilteredTasks(filter = 'all')\<close>, as sequences of values.\<close>

definition getAllTasks :: "state \<Rightarrow> Task list" where
  "getAllTasks st = tasks st"

definition getFilteredTasks :: "jsval \<Rightarrow> state \<Rightarrow> Task list" where
  "getFilteredTasks f st =
     (if f = JStr (js ''active'') then filter (\<lambda>task. \<not> js_truthy (completed task)) (tasks st)
      else if f = JStr (js ''completed'') then filter (\<lambda>task. js_truthy (completed task)) (tasks st)
      else tasks st)"

text \<open>
  \<^verbatim>\<open>loadFromStorage()\<close>. The body of the \<^verbatim>\<open>try\<close> first, in the order of the source;
  its result is what it returned or threw, and the state it left. \<^verbatim>\<open>getItem\<close> gives
  \<^verbatim>\<open>null\<close> for an absent key, and \<^verbatim>\<open>!storedData\<close> also holds for the empty string.
  \<^verbatim>\<open>JSON.parse\<close> and \<^verbatim>\<open>Task.fromObject\<close> (on \<^verbatim>\<open>null\<close>) throw before the assignment
  to \<^verbatim>\<open>this.tasks\<close>; the template literal of the last \<^verbatim>\<open>console.log\<close> converts
  \<^verbatim>\<open>parsedData.version\<close> and \<^verbatim>\<open>parsedData.lastSaved\<close> to strings after the tasks and the
  filter have been assigned, and what it throws leaves them assigned.
\<close>

fun map_err :: "('a \<Rightarrow> js_error + 'b) \<Rightarrow> 'a list \<Rightarrow> js_error + 'b list" where
  "map_err f [] = Inr []"
| "map_err f (x # xs) =
     bind_err (f x) (\<lambda>y. bind_err (map_err f xs) (\<lambda>ys. Inr (y # ys)))"

text \<open>
  \<^verbatim>\<open>if (parsedData.settings) { appState.currentFilter = parsedData.settings.currentFilter || 'all'; ... }\<close>
\<close>

definition restore_settings :: "jsval \<Rightarrow> state \<Rightarrow> js_error + state" where
  "restore_settings parsedData st =
     bind_err (get_prop parsedData (js ''settings'')) (\<lambda>settings.
       if js_truthy settings then
         bind_err (get_prop settings (js ''currentFilter'')) (\<lambda>f.
           Inr (st\<lparr> currentFilter := (if js_truthy f then f else JStr (js ''all'')) \<rparr>))
       else Inr st)"

text \<open>
  The template literal
  \<^verbatim>\<open>`Data version: ${parsedData.version}, saved: ${parsedData.lastSaved}`\<close>
\<close>

definition version_message :: "jsval \<Rightarrow> js_error + jsstring" where
  "version_message parsedData =
     bind_err (get_prop parsedData (js ''version'')) (\<lambda>version.
     bind_err (ToString version) (\<lambda>v.
     bind_err (get_prop parsedData (js ''lastSaved'')) (\<lambda>lastSaved.
     bind_err (ToString lastSaved) (\<lambda>l.
       Inr (js ''Data version: '' @ v @ js '', saved: '' @ l)))))"

text \<open>From \<^verbatim>\<open>Array.isArray(parsedData.tasks)\<close> to \<^verbatim>\<open>return true\<close>.\<close>

definition restore :: "jsval \<Rightarrow> state \<Rightarrow> (js_error + bool) \<times> state" where
  "restore parsedData st =
     (case get_prop parsedData (js ''tasks'') of
        Inl e \<Rightarrow> (Inl e, st)
      | Inr (JArr taskData) \<Rightarrow>
          (case map_err fromObject taskData of
             Inl e \<Rightarrow> (Inl e, st)
           | Inr loaded \<Rightarrow>
               (case restore_settings parsedData (st\<lparr> tasks := loaded \<rparr>) of
                  Inl e \<Rightarrow> (Inl e, st\<lparr> tasks := loaded \<rparr>)
                | Inr st1 \<Rightarrow>
                    (case version_message parsedData of
                       Inl e \<Rightarrow> (Inl e, st1)
                     | Inr message \<Rightarrow> (Inr True, st1))))
      | Inr v \<Rightarrow> (Inr False, st))"

definition loadFromStorage_try :: "state \<Rightarrow> (js_error + bool) \<times> state" where
  "loadFromStorage_try st =
     (if \<not> available (storage st) then (Inr False, st)
      else
        (case getItem (storage st) of
           None \<Rightarrow> (Inr True, st)
         | Some storedData \<Rightarrow>
             if storedData = [] then (Inr True, st)
             else
               (case JSON_parse storedData of
                  Inl e \<Rightarrow> (Inl e, st)
                | Inr parsedData \<Rightarrow>
                    if \<not> js_truthy parsedData then (Inr False, st)
                    else restore parsedData st)))"

text \<open>The \<^verbatim>\<open>catch\<close>: only a SyntaxError removes the stored item.\<close>

definition loadFromStorage :: "state \<Rightarrow> bool \<times> state" where
  "loadFromStorage st =
     (case loadFromStorage_try st of
        (Inr result, st1) \<Rightarrow> (result, st1)
      | (Inl e, st1) \<Rightarrow>
          (False, if e = SyntaxError then st1\<lparr> storage := removeItem (storage st1) \<rparr> else st1))"

text \<open>
  The structure \<^verbatim>\<open>loadFromStorage\<close> expects of the parsed data: the negation of its test
  \<^verbatim>\<open>!parsedData || !Array.isArray(parsedData.tasks)\<close>.
\<close>

definition has_tasks_array :: "jsval \<Rightarrow> bool" where
  "has_tasks_array v =
     (js_truthy v \<and> (case get_prop v (js ''tasks'') of Inr (JArr taskData) \<Rightarrow> True | _ \<Rightarrow> False))"




text \<open>
  The start of the application (the \<^verbatim>\<open>DOMContentLoaded\<close> handler): a new \<^verbatim>\<open>TaskList\<close>
  with no task, the initial \<^verbatim>\<open>appState\<close>, then \<^verbatim>\<open>loadFromStorage\<close>, whose result is not
  used.
\<close>

definition new_TaskList :: "localStorage \<Rightarrow> state" where
  "new_TaskList ls = \<lparr> tasks = [], currentFilter = JStr (js ''all''), storage = ls \<rparr>"

definition startup :: "localStorage \<Rightarrow> state" where
  "startup ls = snd (loadFromStorage (new_TaskList ls))"

section \<open>The heap: arrays and objects by reference\<close>

text \<open>
  \<^verbatim>\<open>getAllTasks\<close> and \<^verbatim>\<open>getFilteredTasks\<close> return arrays of references to \<^verbatim>\<open>Task\<close>
  objects, and what a caller can change through the result depends on what is shared. Here
  the objects and the arrays live in a heap; a reference is a position in it, a new array
  takes the next free position, and \<^verbatim>\<open>this.tasks\<close> is a reference to an array.
\<close>

type_synonym ref = nat

record heap =
  objects :: "Task list"
  arrays :: "ref list list"

text \<open>
  \<^verbatim>\<open>[...this.tasks]\<close> and \<^verbatim>\<open>this.tasks.filter(...)\<close> create a new array that holds
  references of \<^verbatim>\<open>this.tasks\<close>.
\<close>

definition new_array :: "ref list \<Rightarrow> heap \<Rightarrow> ref \<times> heap" where
  "new_array elems h = (length (arrays h), h\<lparr> arrays := arrays h @ [elems] \<rparr>)"

definition getAllTasks_ref :: "ref \<Rightarrow> heap \<Rightarrow> ref \<times> heap" where
  "getAllTasks_ref this_tasks h = new_array (arrays h ! this_tasks) h"

definition getFilteredTasks_ref :: "jsval \<Rightarrow> ref \<Rightarrow> heap \<Rightarrow> ref \<times> heap" where
  "getFilteredTasks_ref f this_tasks h =
     (if f = JStr (js ''active'') then
        new_array (filter (\<lambda>task. \<not> js_truthy (completed (objects h ! task)))
                     (arrays h ! this_tasks)) h
      else if f = JStr (js ''completed'') then
        new_array (filter (\<lambda>task. js_truthy (completed (objects h ! task)))
                     (arrays h ! this_tasks)) h
      else new_array (arrays h ! this_tasks) h)"

text \<open>
  What a caller can do with a reference: give an array any new content (\<^verbatim>\<open>push\<close>,
  \<^verbatim>\<open>pop\<close>, \<^verbatim>\<open>splice\<close>, \<^verbatim>\<open>sort\<close>, an assignment to an index or to \<^verbatim>\<open>length\<close>), and
  assign to the fields of an object. \<open>collection\<close> is the sequence of tasks an array stands
  for, the link to the sequences of values of the section before.
\<close>

definition write_array :: "ref \<Rightarrow> ref list \<Rightarrow> heap \<Rightarrow> heap" where
  "write_array a elems h = h\<lparr> arrays := (arrays h)[a := elems] \<rparr>"

definition write_object :: "ref \<Rightarrow> Task \<Rightarrow> heap \<Rightarrow> heap" where
  "write_object p t h = h\<lparr> objects := (objects h)[p := t] \<rparr>"

definition collection :: "ref \<Rightarrow> heap \<Rightarrow> Task list" where
  "collection a h = map (\<lambda>p. objects h ! p) (arrays h ! a)"

section \<open>Valid collections\<close>

text \<open>
  A task as the data model has it: \<^verbatim>\<open>id\<close>, \<^verbatim>\<open>createdAt\<close> and \<^verbatim>\<open>updatedAt\<close> are strings,
  \<^verbatim>\<open>completed\<close> is a boolean, and \<^verbatim>\<open>text\<close> is a string that \<^verbatim>\<open>isValidText\<close> accepts. A
  valid collection holds such tasks with distinct ids; a valid filter is one of the three
  filter names. \<open>typed_task\<close> keeps only the types of the fields.
\<close>

fun is_string :: "jsval \<Rightarrow> bool" where
  "is_string (JStr s) = True"
| "is_string v = False"

fun is_boolean :: "jsval \<Rightarrow> bool" where
  "is_boolean (JBool b) = True"
| "is_boolean v = False"

definition valid_task :: "Task \<Rightarrow> bool" where
  "valid_task t =
     (is_string (id' t) \<and> isValidText (text' t) \<and> is_boolean (completed t)
      \<and> is_string (createdAt t) \<and> is_string (updatedAt t))"

definition valid_collection :: "Task list \<Rightarrow> bool" where
  "valid_collection ts = ((\<forall>t\<in>set ts. valid_task t) \<and> distinct (map id' ts))"

definition valid_filter :: "jsval \<Rightarrow> bool" where
  "valid_filter f = (f = JStr (js ''all'') \<or> f = JStr (js ''active'') \<or> f = JStr (js ''completed''))"

definition typed_task :: "Task \<Rightarrow> bool" where
  "typed_task t =
     (is_string (id' t) \<and> is_string (text' t) \<and> is_boolean (completed t)
      \<and> is_string (createdAt t) \<and> is_string (updatedAt t))"

section \<open>Values that JSON represents exactly\<close>

text \<open>
  The values that \<^verbatim>\<open>JSON.parse\<close> gives back from the text \<^verbatim>\<open>JSON.stringify\<close> writes for
  them: \<^verbatim>\<open>null\<close>, booleans, strings, and arrays and objects of such values, the keys of
  an object being distinct and none of them an array index. \<open>round_trips\<close> says so of one value, with any text after it; \<open>value_start\<close>
  holds of the code units such a text can begin with.
\<close>

fun json_exact :: "jsval \<Rightarrow> bool"
  and json_exact_elements :: "jsval list \<Rightarrow> bool"
  and json_exact_properties :: "(jsstring \<times> jsval) list \<Rightarrow> bool"
where
  "json_exact JUndefined = False"
| "json_exact JNull = True"
| "json_exact (JBool b) = True"
| "json_exact (JNum n) = False"
| "json_exact (JStr s) = True"
| "json_exact (JArr vs) = json_exact_elements vs"
| "json_exact (JObj kvs) = (distinct (map fst kvs) \<and> json_exact_properties kvs)"
| "json_exact_elements [] = True"
| "json_exact_elements (v # vs) = (json_exact v \<and> json_exact_elements vs)"
| "json_exact_properties [] = True"
| "json_exact_properties ((k, v) # kvs) =
     (\<not> is_array_index k \<and> json_exact v \<and> json_exact_properties kvs)"

definition value_start :: "jschar \<Rightarrow> bool" where
  "value_start c = (c = 0x22 \<or> c = 0x5B \<or> c = 0x7B \<or> c = 0x6E \<or> c = 0x74 \<or> c = 0x66)"

definition round_trips :: "jsval \<Rightarrow> bool" where
  "round_trips v =
     (\<exists>out. SerializeJSONProperty v = Some out \<and> out \<noteq> [] \<and> value_start (hd out)
        \<and> (\<forall>rest. parse_value (out @ rest) = Some (v, rest)))"

section \<open>Example readings and storage\<close>

text \<open>Concrete inputs for the examples below: readings of the clock, and a browser's storage.\<close>

definition example_readings :: readings where
  "example_readings =
     \<lparr> Date_now = 1758360000000, Math_random = js ''k3j9x0q2a'',
       iso_createdAt = js ''2025-09-20T09:20:00.000Z'',
       iso_updatedAt = js ''2025-09-20T09:20:00.000Z'',
       iso_lastSaved = js ''2025-09-20T09:20:00.000Z'' \<rparr>"

definition later_readings :: readings where
  "later_readings =
     \<lparr> Date_now = 1758360000250, Math_random = js ''p0m4z7c1e'',
       iso_createdAt = js ''2025-09-20T09:20:00.250Z'',
       iso_updatedAt = js ''2025-09-20T09:20:00.250Z'',
       iso_lastSaved = js ''2025-09-20T09:20:00.250Z'' \<rparr>"

definition empty_storage :: localStorage where
  "empty_storage = \<lparr> available = True, quota = 5000000, todoApp = None \<rparr>"

definition storage_holding :: "jsstring \<Rightarrow> localStorage" where
  "storage_holding s = \<lparr> available = True, quota = 5000000, todoApp = Some s \<rparr>"

section \<open>Sequences of operations\<close>

text \<open>
  The operations of the store that create or change a task, with the readings each one
  makes, and the state after a sequence of them.
\<close>

datatype operation =
    Add readings jsval
  | Toggle readings jsstring
  | Edit readings jsstring jsval
  | Delete readings jsstring

fun perform :: "operation \<Rightarrow> state \<Rightarrow> state" where
  "perform (Add r txt) st = snd (addTask r txt st)"
| "perform (Toggle r i) st = snd (toggleTask r i st)"
| "perform (Edit r i newText) st = snd (editTask r i newText st)"
| "perform (Delete r i) st = snd (deleteTask r i st)"

definition run :: "operation list \<Rightarrow> state \<Rightarrow> state" where
  "run ops st = foldl (\<lambda>s operation. perform operation s) st ops"

text \<open>
  The invariant of the text of a task: a string that is not empty after trimming and has
  at most 500 code units.
\<close>

definition text_invariant :: "Task \<Rightarrow> bool" where
  "text_invariant t =
     (case text' t of JStr s \<Rightarrow> trim s \<noteq> [] \<and> length s \<le> 500 | _ \<Rightarrow> False)"

section \<open>Example states and stored records\<close>

text \<open>
  The state after one \<^verbatim>\<open>addTask('Buy milk')\<close> on an empty store, and the id the task got.
\<close>

definition example_id :: jsstring where
  "example_id = js ''task_1758360000000_k3j9x0q2a''"

definition one_task :: state where
  "one_task = snd (addTask example_readings (JStr (js ''Buy milk'')) (new_TaskList empty_storage))"

text \<open>
  States after the start of the application on a stored record that \<^verbatim>\<open>loadFromStorage\<close>
  accepts: a task whose \<^verbatim>\<open>completed\<close> is a string, two tasks with one id, and a task
  whose text is empty.
\<close>

definition yes_task :: state where
  \<open>yes_task = startup (storage_holding (js ''{"tasks":[{"id":"a","completed":"yes"}]}''))\<close>

definition duplicate_ids :: state where
  \<open>duplicate_ids =
     startup (storage_holding (js ''{"tasks":[{"id":"a","text":"x"},{"id":"a","text":"y"}]}''))\<close>

definition empty_text_task :: state where
  \<open>empty_text_task = startup (storage_holding (js ''{"tasks":[{"id":"a","text":""}]}''))\<close>





text \<open>A heap with the one task of \<open>one_task\<close>; the array at 0 is \<^verbatim>\<open>this.tasks\<close>.\<close>

definition one_task_heap :: heap where
  "one_task_heap = \<lparr> objects = tasks one_task, arrays = [[0]] \<rparr>"

text \<open>The task of \<open>one_task\<close> under the filter \<^verbatim>\<open>active\<close>, with nothing stored yet.\<close>

definition saved_state :: state where
  "saved_state =
     \<lparr> tasks = tasks one_task, currentFilter = JStr (js ''active''), storage = empty_storage \<rparr>"


section \<open>Properties\<close>

subsection \<open>Auxiliary facts\<close>

lemma tasks_saveToStorage: "tasks (snd (saveToStorage r st)) = tasks st"
  by (simp add: saveToStorage_def split: sum.splits)

lemma currentFilter_saveToStorage:
  "currentFilter (snd (saveToStorage r st)) = currentFilter st"
  by (simp add: saveToStorage_def split: sum.splits)

lemma trim_Nil: "trim [] = []"
  by (simp add: trim_def)

lemma trim_whitespace_only:
  assumes "\<forall>c\<in>set s. is_whitespace c"
  shows "trim s = []"
proof -
  have empty: "dropWhile is_whitespace s = []"
    using assms by (induction s) simp_all
  show ?thesis unfolding trim_def empty by simp
qed

lemma trim_replicate_A: "trim (replicate n 0x41) = replicate n 0x41"
  by (simp add: trim_def is_whitespace_def)

lemma trim_space_replicate_A: "trim (0x20 # replicate n 0x41) = replicate n 0x41"
  by (simp add: trim_def is_whitespace_def)

lemma trim_Buy_milk: "trim (js ''  Buy milk '') = js ''Buy milk''"
  by (simp add: trim_def js_def is_whitespace_def)

text \<open>Evaluation of the parser and of \<open>loadFromStorage\<close> on concrete inputs.\<close>

lemmas parse_eval = parse_value.simps parse_elements.simps parse_members.simps
  skip_ws_def is_json_ws_def is_digit_def parse_number_def cons_result_def unescape_def
  hex4_def hex_value_def JSON_parse_def own_property_order_def is_array_index_def

lemmas load_eval = startup_def loadFromStorage_def loadFromStorage_try_def restore_def
  restore_settings_def version_message_def new_TaskList_def storage_holding_def getItem_def
  removeItem_def bind_err_def fromObject_def

lemma decimal_example: "decimal 1758360000000 = js ''1758360000000''"
  by (simp add: decimal.simps js_def)

lemma trim_Buy_oat_milk: "trim (js '' Buy oat milk  '') = js ''Buy oat milk''"
  by (simp add: trim_def js_def is_whitespace_def)

lemma trim_Buy_milk': "trim (js ''Buy milk'') = js ''Buy milk''"
  by (simp add: trim_def js_def is_whitespace_def)

lemma tasks_one_task:
  "tasks one_task =
     [\<lparr> id' = JStr example_id, text' = JStr (js ''Buy milk''), completed = JBool False,
         createdAt = JStr (js ''2025-09-20T09:20:00.000Z''),
         updatedAt = JStr (js ''2025-09-20T09:20:00.000Z'') \<rparr>]"
  by (simp add: one_task_def addTask_def tasks_saveToStorage trim_Buy_milk' new_TaskList_def
      example_readings_def decimal_example example_id_def)
    (simp add: js_def)

lemma find_index_None: "find_index P xs = None \<longleftrightarrow> (\<forall>x\<in>set xs. \<not> P x)"
  by (induction xs) auto

lemma find_index_Some:
  "find_index P xs = Some n \<Longrightarrow> n < length xs \<and> P (xs ! n) \<and> (\<forall>m<n. \<not> P (xs ! m))"
proof (induction xs arbitrary: n)
  case Nil
  then show ?case by simp
next
  case (Cons x xs)
  show ?case
  proof (cases "P x")
    case True
    with Cons.prems show ?thesis by simp
  next
    case False
    with Cons.prems obtain k where k: "find_index P xs = Some k" "n = Suc k"
      by auto
    from Cons.IH [OF k(1)] False k(2) show ?thesis
      by (auto simp: nth_Cons split: nat.splits)
  qed
qed

lemma find_index_update:
  "find_index P xs = Some n \<Longrightarrow> P y \<Longrightarrow> find_index P (xs[n := y]) = Some n"
proof (induction xs arbitrary: n)
  case Nil
  then show ?case by simp
next
  case (Cons x xs)
  then show ?case by (cases "P x") auto
qed

lemma find_by_id_None: "find_by_id i ts = None \<longleftrightarrow> (\<forall>t\<in>set ts. id' t \<noteq> JStr i)"
  by (simp add: find_by_id_def find_index_None)

lemma find_by_id_Some:
  "find_by_id i ts = Some n \<Longrightarrow>
     n < length ts \<and> id' (ts ! n) = JStr i \<and> (\<forall>m<n. id' (ts ! m) \<noteq> JStr i)"
  unfolding find_by_id_def by (drule find_index_Some) simp

lemma find_by_id_update:
  "find_by_id i ts = Some n \<Longrightarrow> id' t = JStr i \<Longrightarrow> find_by_id i (ts[n := t]) = Some n"
  unfolding find_by_id_def by (rule find_index_update)

lemma find_by_id_present:
  "(\<exists>t\<in>set ts. id' t = JStr i) \<Longrightarrow> \<exists>n. find_by_id i ts = Some n"
  using find_by_id_None [of i ts] by (cases "find_by_id i ts") auto

lemma id_toggle: "id' (toggle r t) = id' t"
  by (simp add: toggle_def)

lemma toggleTask_found:
  assumes "find_by_id i (tasks st) = Some n"
  shows "fst (toggleTask r i st) = Some (toggle r (tasks st ! n))"
    and "tasks (snd (toggleTask r i st)) = (tasks st)[n := toggle r (tasks st ! n)]"
  using assms by (simp_all add: toggleTask_def Let_def tasks_saveToStorage)

subsection \<open>Adding a task\<close>

text \<open>
  C3. For every string \<open>s\<close> whose trimmed form is not empty and has at most 500 code
  units, \<open>addTask\<close> returns a task whose text is \<open>trim s\<close> and whose completed flag is
  \<open>false\<close>; the task is appended at the end of the sequence, which so grows by exactly one.
  This holds in every state, whatever the storage does.
\<close>

theorem addTask_accepts_valid_text:
  assumes "0 < length (trim s)" and "length (trim s) \<le> 500"
  shows "\<exists>task. fst (addTask r (JStr s) st) = Some task
           \<and> text' task = JStr (trim s)
           \<and> completed task = JBool False
           \<and> tasks (snd (addTask r (JStr s) st)) = tasks st @ [task]
           \<and> length (tasks (snd (addTask r (JStr s) st))) = length (tasks st) + 1"
  using assms by (simp add: addTask_def tasks_saveToStorage)

theorem addTask_accepts_valid_text_witness:
  "0 < length (trim (js ''  Buy milk '')) \<and> length (trim (js ''  Buy milk '')) \<le> 500
   \<and> (\<exists>task. fst (addTask example_readings (JStr (js ''  Buy milk ''))
                      (new_TaskList empty_storage)) = Some task
           \<and> text' task = JStr (js ''Buy milk'')
           \<and> completed task = JBool False
           \<and> tasks (snd (addTask example_readings (JStr (js ''  Buy milk ''))
                             (new_TaskList empty_storage))) = [task])"
proof -
  have 1: "0 < length (trim (js ''  Buy milk ''))"
    by (simp add: trim_Buy_milk) (simp add: js_def)
  have 2: "length (trim (js ''  Buy milk '')) \<le> 500"
    by (simp add: trim_Buy_milk) (simp add: js_def)
  from addTask_accepts_valid_text [OF 1 2, of example_readings "new_TaskList empty_storage"] 1 2
  show ?thesis by (auto simp: trim_Buy_milk new_TaskList_def)
qed

text \<open>
  C4, as stated, fails: a text of length 501 is accepted when trimming shortens it to at
  most 500 code units. A space followed by 500 letters has length 501; \<open>addTask\<close> returns
  a task for it and the collection grows from 0 to 1.
\<close>

theorem addTask_length_501_counterexample:
  "length (0x20 # replicate 500 (0x41 :: jschar)) = 501
   \<and> fst (addTask example_readings (JStr (0x20 # replicate 500 0x41))
             (new_TaskList empty_storage)) \<noteq> None
   \<and> length (tasks (new_TaskList empty_storage)) = 0
   \<and> length (tasks (snd (addTask example_readings (JStr (0x20 # replicate 500 0x41))
                            (new_TaskList empty_storage)))) = 1"
  by (simp add: addTask_def trim_space_replicate_A tasks_saveToStorage new_TaskList_def)

text \<open>
  C4, amended. \<open>addTask\<close> of the empty string, of a text of white space only, and of a
  text whose trimmed form is longer than 500 code units (501 or more) each return
  \<^verbatim>\<open>null\<close> and leave the whole state, so the collection, unchanged. Nothing is thrown:
  the result is a value of the model in every case.
\<close>

theorem addTask_rejects_invalid_text:
  "addTask r (JStr []) st = (None, st)
   \<and> ((\<forall>c\<in>set s. is_whitespace c) \<longrightarrow> addTask r (JStr s) st = (None, st))
   \<and> (500 < length (trim s) \<longrightarrow> addTask r (JStr s) st = (None, st))"
  by (simp add: addTask_def trim_Nil trim_whitespace_only)

theorem addTask_rejects_invalid_text_witness:
  "addTask example_readings (JStr []) (new_TaskList empty_storage)
     = (None, new_TaskList empty_storage)
   \<and> addTask example_readings (JStr (js ''   '')) (new_TaskList empty_storage)
     = (None, new_TaskList empty_storage)
   \<and> length (replicate 501 (0x41 :: jschar)) = 501
   \<and> addTask example_readings (JStr (replicate 501 0x41)) (new_TaskList empty_storage)
     = (None, new_TaskList empty_storage)"
proof -
  have ws: "\<forall>c\<in>set (js ''   ''). is_whitespace c"
    by (simp add: js_def is_whitespace_def)
  have long: "500 < length (trim (replicate 501 (0x41 :: jschar)))"
    by (simp add: trim_replicate_A)
  from addTask_rejects_invalid_text [of example_readings "new_TaskList empty_storage" "js ''   ''"]
    addTask_rejects_invalid_text [of example_readings "new_TaskList empty_storage" "replicate 501 0x41"]
    ws long
  show ?thesis by simp
qed

subsection \<open>Toggling a task\<close>

lemma tasks_yes_task:
  "tasks yes_task =
     [\<lparr> id' = JStr (js ''a''), text' = JUndefined, completed = JStr (js ''yes''),
         createdAt = JUndefined, updatedAt = JUndefined \<rparr>]"
  unfolding yes_task_def by (simp add: load_eval js_def parse_eval)

lemma tasks_duplicate_ids:
  "tasks duplicate_ids =
     [\<lparr> id' = JStr (js ''a''), text' = JStr (js ''x''), completed = JUndefined,
         createdAt = JUndefined, updatedAt = JUndefined \<rparr>,
      \<lparr> id' = JStr (js ''a''), text' = JStr (js ''y''), completed = JUndefined,
         createdAt = JUndefined, updatedAt = JUndefined \<rparr>]"
  unfolding duplicate_ids_def by (simp add: load_eval js_def parse_eval)

text \<open>
  C5, as stated, fails in two places. The new \<^verbatim>\<open>updatedAt\<close> is the reading of the clock,
  which need not differ from the stored one: a task toggled in the millisecond of its
  creation keeps its \<^verbatim>\<open>updatedAt\<close>. And \<^verbatim>\<open>toggle\<close> stores the boolean
  \<^verbatim>\<open>!this.completed\<close>: a task loaded with the string \<^verbatim>\<open>"yes"\<close> as \<^verbatim>\<open>completed\<close> has
  \<^verbatim>\<open>true\<close> after two toggles, not its original value.
\<close>

theorem toggleTask_counterexample:
  "find_by_id example_id (tasks one_task) = Some 0
   \<and> map_option updatedAt (fst (toggleTask example_readings example_id one_task))
       = Some (updatedAt (tasks one_task ! 0))
   \<and> find_by_id (js ''a'') (tasks yes_task) = Some 0
   \<and> completed (tasks yes_task ! 0) = JStr (js ''yes'')
   \<and> completed (tasks (snd (toggleTask later_readings (js ''a'')
                  (snd (toggleTask example_readings (js ''a'') yes_task)))) ! 0) = JBool True"
proof -
  have 1: "find_by_id example_id (tasks one_task) = Some 0"
    by (simp add: tasks_one_task find_by_id_def)
  have 2: "find_by_id (js ''a'') (tasks yes_task) = Some 0"
    by (simp add: tasks_yes_task find_by_id_def)
  have 3: "find_by_id (js ''a'') (tasks (snd (toggleTask example_readings (js ''a'') yes_task))) = Some 0"
    by (simp add: toggleTask_found [OF 2] tasks_yes_task find_by_id_def toggle_def)
  show ?thesis
    by (simp add: 1 2 toggleTask_found [OF 1] toggleTask_found [OF 2] toggleTask_found [OF 3])
      (simp add: tasks_one_task tasks_yes_task toggle_def example_readings_def js_def)
qed

text \<open>
  C5, amended. For an id present in the collection, \<open>toggleTask\<close> returns the first task
  with that id (no task before it has the id), after setting its completed flag to the
  negation of the flag's truthiness and its \<^verbatim>\<open>updatedAt\<close> to the reading of the clock; the
  other fields and the other tasks stay as they were. Calling it twice returns a boolean
  completed flag to its original value. For an absent id it returns \<^verbatim>\<open>null\<close> and the
  state is unchanged. The example after the theorem also toggles the first of two tasks
  that were loaded with one id.
\<close>

theorem toggleTask_effect:
  "((\<exists>t\<in>set (tasks st). id' t = JStr i) \<longrightarrow>
      (\<exists>n<length (tasks st).
         id' (tasks st ! n) = JStr i
         \<and> (\<forall>m<n. id' (tasks st ! m) \<noteq> JStr i)
         \<and> fst (toggleTask r i st) = Some (tasks (snd (toggleTask r i st)) ! n)
         \<and> length (tasks (snd (toggleTask r i st))) = length (tasks st)
         \<and> completed (tasks (snd (toggleTask r i st)) ! n)
             = JBool (\<not> js_truthy (completed (tasks st ! n)))
         \<and> updatedAt (tasks (snd (toggleTask r i st)) ! n) = JStr (iso_updatedAt r)
         \<and> id' (tasks (snd (toggleTask r i st)) ! n) = id' (tasks st ! n)
         \<and> text' (tasks (snd (toggleTask r i st)) ! n) = text' (tasks st ! n)
         \<and> createdAt (tasks (snd (toggleTask r i st)) ! n) = createdAt (tasks st ! n)
         \<and> (\<forall>m. m \<noteq> n \<longrightarrow> tasks (snd (toggleTask r i st)) ! m = tasks st ! m)
         \<and> (\<forall>b. completed (tasks st ! n) = JBool b \<longrightarrow>
               completed (tasks (snd (toggleTask r2 i (snd (toggleTask r i st)))) ! n) = JBool b)))
   \<and> ((\<forall>t\<in>set (tasks st). id' t \<noteq> JStr i) \<longrightarrow> toggleTask r i st = (None, st))"
proof (intro conjI impI)
  assume "\<exists>t\<in>set (tasks st). id' t = JStr i"
  then obtain n where n: "find_by_id i (tasks st) = Some n"
    using find_by_id_present by blast
  note f = find_by_id_Some [OF n]
  let ?t = "toggle r (tasks st ! n)"
  let ?st = "snd (toggleTask r i st)"
  have ts: "tasks ?st = (tasks st)[n := ?t]" and res: "fst (toggleTask r i st) = Some ?t"
    using toggleTask_found [OF n] by simp_all
  have n2: "find_by_id i (tasks ?st) = Some n"
    unfolding ts using n f by (intro find_by_id_update) (simp_all add: id_toggle)
  have ts2: "tasks (snd (toggleTask r2 i ?st)) = (tasks ?st)[n := toggle r2 (tasks ?st ! n)]"
    using toggleTask_found [OF n2] by simp
  have nth: "tasks ?st ! n = ?t"
    using f by (simp add: ts)
  have twice: "\<forall>b. completed (tasks st ! n) = JBool b \<longrightarrow>
      completed (tasks (snd (toggleTask r2 i ?st)) ! n) = JBool b"
    using f by (simp add: ts2 nth) (simp add: ts toggle_def)
  show "\<exists>n<length (tasks st).
         id' (tasks st ! n) = JStr i
         \<and> (\<forall>m<n. id' (tasks st ! m) \<noteq> JStr i)
         \<and> fst (toggleTask r i st) = Some (tasks (snd (toggleTask r i st)) ! n)
         \<and> length (tasks (snd (toggleTask r i st))) = length (tasks st)
         \<and> completed (tasks (snd (toggleTask r i st)) ! n)
             = JBool (\<not> js_truthy (completed (tasks st ! n)))
         \<and> updatedAt (tasks (snd (toggleTask r i st)) ! n) = JStr (iso_updatedAt r)
         \<and> id' (tasks (snd (toggleTask r i st)) ! n) = id' (tasks st ! n)
         \<and> text' (tasks (snd (toggleTask r i st)) ! n) = text' (tasks st ! n)
         \<and> createdAt (tasks (snd (toggleTask r i st)) ! n) = createdAt (tasks st ! n)
         \<and> (\<forall>m. m \<noteq> n \<longrightarrow> tasks (snd (toggleTask r i st)) ! m = tasks st ! m)
         \<and> (\<forall>b. completed (tasks st ! n) = JBool b \<longrightarrow>
               completed (tasks (snd (toggleTask r2 i (snd (toggleTask r i st)))) ! n) = JBool b)"
  proof (intro exI [of _ n] conjI)
    show "n < length (tasks st)" using f by simp
    show "id' (tasks st ! n) = JStr i" using f by simp
    show "\<forall>m<n. id' (tasks st ! m) \<noteq> JStr i" using f by simp
    show "fst (toggleTask r i st) = Some (tasks ?st ! n)" by (simp add: res nth)
    show "length (tasks ?st) = length (tasks st)" by (simp add: ts)
    show "completed (tasks ?st ! n) = JBool (\<not> js_truthy (completed (tasks st ! n)))"
      by (simp add: nth toggle_def)
    show "updatedAt (tasks ?st ! n) = JStr (iso_updatedAt r)" by (simp add: nth toggle_def)
    show "id' (tasks ?st ! n) = id' (tasks st ! n)" by (simp add: nth toggle_def)
    show "text' (tasks ?st ! n) = text' (tasks st ! n)" by (simp add: nth toggle_def)
    show "createdAt (tasks ?st ! n) = createdAt (tasks st ! n)" by (simp add: nth toggle_def)
    show "\<forall>m. m \<noteq> n \<longrightarrow> tasks ?st ! m = tasks st ! m" by (simp add: ts)
    show "\<forall>b. completed (tasks st ! n) = JBool b \<longrightarrow>
               completed (tasks (snd (toggleTask r2 i ?st)) ! n) = JBool b"
      by (rule twice)
  qed
next
  assume "\<forall>t\<in>set (tasks st). id' t \<noteq> JStr i"
  then have "find_by_id i (tasks st) = None" by (simp add: find_by_id_None)
  then show "toggleTask r i st = (None, st)" by (simp add: toggleTask_def)
qed

theorem toggleTask_effect_witness:
  "(\<exists>n<length (tasks one_task).
       id' (tasks one_task ! n) = JStr example_id
       \<and> fst (toggleTask later_readings example_id one_task)
           = Some (tasks (snd (toggleTask later_readings example_id one_task)) ! n)
       \<and> completed (tasks (snd (toggleTask later_readings example_id one_task)) ! n) = JBool True
       \<and> updatedAt (tasks (snd (toggleTask later_readings example_id one_task)) ! n)
           = JStr (js ''2025-09-20T09:20:00.250Z'')
       \<and> completed (tasks (snd (toggleTask later_readings example_id
                      (snd (toggleTask later_readings example_id one_task)))) ! n) = JBool False)
   \<and> toggleTask later_readings (js ''invalid_id_12345'') one_task = (None, one_task)
   \<and> map id' (tasks duplicate_ids) = [JStr (js ''a''), JStr (js ''a'')]
   \<and> fst (toggleTask later_readings (js ''a'') duplicate_ids)
       = Some (tasks (snd (toggleTask later_readings (js ''a'') duplicate_ids)) ! 0)
   \<and> completed (tasks (snd (toggleTask later_readings (js ''a'') duplicate_ids)) ! 0) = JBool True
   \<and> tasks (snd (toggleTask later_readings (js ''a'') duplicate_ids)) ! 1 = tasks duplicate_ids ! 1"
proof -
  have present: "\<exists>t\<in>set (tasks one_task). id' t = JStr example_id"
    by (simp add: tasks_one_task)
  have absent: "\<forall>t\<in>set (tasks one_task). id' t \<noteq> JStr (js ''invalid_id_12345'')"
    by (simp add: tasks_one_task example_id_def js_def)
  have iso: "iso_updatedAt later_readings = js ''2025-09-20T09:20:00.250Z''"
    by (simp add: later_readings_def)
  have one: "(\<exists>n<length (tasks one_task).
       id' (tasks one_task ! n) = JStr example_id
       \<and> fst (toggleTask later_readings example_id one_task)
           = Some (tasks (snd (toggleTask later_readings example_id one_task)) ! n)
       \<and> completed (tasks (snd (toggleTask later_readings example_id one_task)) ! n) = JBool True
       \<and> updatedAt (tasks (snd (toggleTask later_readings example_id one_task)) ! n)
           = JStr (js ''2025-09-20T09:20:00.250Z'')
       \<and> completed (tasks (snd (toggleTask later_readings example_id
                      (snd (toggleTask later_readings example_id one_task)))) ! n) = JBool False)
   \<and> toggleTask later_readings (js ''invalid_id_12345'') one_task = (None, one_task)"
    using toggleTask_effect [of one_task example_id later_readings later_readings] present
      toggleTask_effect [of one_task "js ''invalid_id_12345''" later_readings later_readings] absent
    by (auto simp: tasks_one_task iso)
  let ?st = "snd (toggleTask later_readings (js ''a'') duplicate_ids)"
  have ids: "map id' (tasks duplicate_ids) = [JStr (js ''a''), JStr (js ''a'')]"
    by (simp add: tasks_duplicate_ids)
  then have "\<exists>t\<in>set (tasks duplicate_ids). id' t = JStr (js ''a'')"
    by (simp add: tasks_duplicate_ids)
  then have present2: "\<exists>t\<in>set (tasks duplicate_ids). id' t = JStr (js ''a'')" .
  from toggleTask_effect [of duplicate_ids "js ''a''" later_readings later_readings,
      THEN conjunct1, THEN mp, OF present2]
  obtain n where "n < length (tasks duplicate_ids)
         \<and> id' (tasks duplicate_ids ! n) = JStr (js ''a'')
         \<and> (\<forall>m<n. id' (tasks duplicate_ids ! m) \<noteq> JStr (js ''a''))
         \<and> fst (toggleTask later_readings (js ''a'') duplicate_ids) = Some (tasks (snd (toggleTask later_readings (js ''a'') duplicate_ids)) ! n)
         \<and> length (tasks (snd (toggleTask later_readings (js ''a'') duplicate_ids))) = length (tasks duplicate_ids)
         \<and> completed (tasks (snd (toggleTask later_readings (js ''a'') duplicate_ids)) ! n)
             = JBool (\<not> js_truthy (completed (tasks duplicate_ids ! n)))
         \<and> updatedAt (tasks (snd (toggleTask later_readings (js ''a'') duplicate_ids)) ! n) = JStr (iso_updatedAt later_readings)
         \<and> id' (tasks (snd (toggleTask later_readings (js ''a'') duplicate_ids)) ! n) = id' (tasks duplicate_ids ! n)
         \<and> text' (tasks (snd (toggleTask later_readings (js ''a'') duplicate_ids)) ! n) = text' (tasks duplicate_ids ! n)
         \<and> createdAt (tasks (snd (toggleTask later_readings (js ''a'') duplicate_ids)) ! n) = createdAt (tasks duplicate_ids ! n)
         \<and> (\<forall>m. m \<noteq> n \<longrightarrow> tasks (snd (toggleTask later_readings (js ''a'') duplicate_ids)) ! m = tasks duplicate_ids ! m)
         \<and> (\<forall>b. completed (tasks duplicate_ids ! n) = JBool b \<longrightarrow>
               completed (tasks (snd (toggleTask later_readings (js ''a'') (snd (toggleTask later_readings (js ''a'') duplicate_ids)))) ! n) = JBool b)" ..
  then have n: "\<forall>m<n. id' (tasks duplicate_ids ! m) \<noteq> JStr (js ''a'')"
    "fst (toggleTask later_readings (js ''a'') duplicate_ids) = Some (tasks ?st ! n)"
    "completed (tasks ?st ! n) = JBool (\<not> js_truthy (completed (tasks duplicate_ids ! n)))"
    "\<forall>m. m \<noteq> n \<longrightarrow> tasks ?st ! m = tasks duplicate_ids ! m"
    by simp_all
  have "n = 0"
  proof (rule ccontr)
    assume "n \<noteq> 0"
    with n(1) have "id' (tasks duplicate_ids ! 0) \<noteq> JStr (js ''a'')" by simp
    then show False by (simp add: tasks_duplicate_ids)
  qed
  with n have "fst (toggleTask later_readings (js ''a'') duplicate_ids) = Some (tasks ?st ! 0)"
    "completed (tasks ?st ! 0) = JBool True"
    "tasks ?st ! 1 = tasks duplicate_ids ! 1"
    by (simp_all add: tasks_duplicate_ids)
  with one ids show ?thesis
    by simp
qed

subsection \<open>Deleting a task\<close>

lemma length_filter_distinct:
  "distinct (map f xs) \<Longrightarrow> \<exists>t\<in>set xs. f t = x \<Longrightarrow>
     length (filter (\<lambda>t. f t \<noteq> x) xs) + 1 = length xs"
proof (induction xs)
  case Nil
  then show ?case by simp
next
  case (Cons y ys)
  show ?case
  proof (cases "f y = x")
    case True
    from Cons.prems(1) have "f y \<notin> f ` set ys" by simp
    with True have "\<forall>t\<in>set ys. f t \<noteq> x" by blast
    then have "filter (\<lambda>t. f t \<noteq> x) ys = ys" by (simp add: filter_id_conv)
    with True show ?thesis by simp
  next
    case False
    with Cons show ?thesis by auto
  qed
qed

lemma deleteTask_tasks:
  "tasks (snd (deleteTask r i st)) = filter (\<lambda>t. id' t \<noteq> JStr i) (tasks st)"
  by (simp add: deleteTask_def Let_def tasks_saveToStorage)

lemma deleteTask_absent:
  assumes "\<forall>t\<in>set (tasks st). id' t \<noteq> JStr i"
  shows "deleteTask r i st = (False, st)"
proof -
  have "filter (\<lambda>t. id' t \<noteq> JStr i) (tasks st) = tasks st"
    using assms by (simp add: filter_id_conv)
  then show ?thesis by (simp add: deleteTask_def Let_def)
qed

text \<open>
  C6, amended. On a present id \<open>deleteTask\<close> returns \<^verbatim>\<open>true\<close> and removes every task
  with that id, keeping the others in their order: at least one task, and exactly one when
  the ids of the collection are distinct. Repeating the call returns \<^verbatim>\<open>false\<close> and changes
  nothing, as does a call on an absent id.
\<close>

theorem deleteTask_effect:
  "((\<exists>t\<in>set (tasks st). id' t = JStr i) \<longrightarrow>
       fst (deleteTask r i st) = True
       \<and> tasks (snd (deleteTask r i st)) = filter (\<lambda>t. id' t \<noteq> JStr i) (tasks st)
       \<and> length (tasks (snd (deleteTask r i st))) < length (tasks st)
       \<and> (distinct (map id' (tasks st)) \<longrightarrow>
            length (tasks (snd (deleteTask r i st))) + 1 = length (tasks st))
       \<and> deleteTask r2 i (snd (deleteTask r i st)) = (False, snd (deleteTask r i st)))
   \<and> ((\<forall>t\<in>set (tasks st). id' t \<noteq> JStr i) \<longrightarrow> deleteTask r i st = (False, st))"
proof (intro conjI impI)
  assume present: "\<exists>t\<in>set (tasks st). id' t = JStr i"
  then have shorter: "length (filter (\<lambda>t. id' t \<noteq> JStr i) (tasks st)) < length (tasks st)"
    by (auto intro: length_filter_less)
  then show "fst (deleteTask r i st) = True"
    by (simp add: deleteTask_def Let_def)
  show "tasks (snd (deleteTask r i st)) = filter (\<lambda>t. id' t \<noteq> JStr i) (tasks st)"
    by (rule deleteTask_tasks)
  show "length (tasks (snd (deleteTask r i st))) < length (tasks st)"
    using shorter by (simp add: deleteTask_tasks)
  show "length (tasks (snd (deleteTask r i st))) + 1 = length (tasks st)"
    if "distinct (map id' (tasks st))"
    using length_filter_distinct [OF that present] by (simp add: deleteTask_tasks)
  have "\<forall>t\<in>set (tasks (snd (deleteTask r i st))). id' t \<noteq> JStr i"
    by (simp add: deleteTask_tasks)
  then show "deleteTask r2 i (snd (deleteTask r i st)) = (False, snd (deleteTask r i st))"
    by (rule deleteTask_absent)
next
  assume "\<forall>t\<in>set (tasks st). id' t \<noteq> JStr i"
  then show "deleteTask r i st = (False, st)" by (rule deleteTask_absent)
qed

text \<open>
  C6, as stated, fails: \<^verbatim>\<open>filter\<close> removes all tasks with the id. After loading a record
  with two tasks of id \<^verbatim>\<open>"a"\<close>, one call removes both.
\<close>

theorem deleteTask_counterexample:
  "length (tasks duplicate_ids) = 2
   \<and> (\<exists>t\<in>set (tasks duplicate_ids). id' t = JStr (js ''a''))
   \<and> fst (deleteTask example_readings (js ''a'') duplicate_ids) = True
   \<and> length (tasks (snd (deleteTask example_readings (js ''a'') duplicate_ids))) = 0"
  by (simp add: deleteTask_def Let_def tasks_saveToStorage tasks_duplicate_ids)

theorem deleteTask_effect_witness:
  "fst (deleteTask later_readings example_id one_task) = True
   \<and> tasks (snd (deleteTask later_readings example_id one_task)) = []
   \<and> length (tasks (snd (deleteTask later_readings example_id one_task))) + 1
        = length (tasks one_task)
   \<and> deleteTask later_readings example_id (snd (deleteTask later_readings example_id one_task))
        = (False, snd (deleteTask later_readings example_id one_task))
   \<and> deleteTask later_readings (js ''invalid_id_12345'') one_task = (False, one_task)"
proof -
  have present: "\<exists>t\<in>set (tasks one_task). id' t = JStr example_id"
    by (simp add: tasks_one_task)
  have unique: "distinct (map id' (tasks one_task))"
    by (simp add: tasks_one_task)
  have absent: "\<forall>t\<in>set (tasks one_task). id' t \<noteq> JStr (js ''invalid_id_12345'')"
    by (simp add: tasks_one_task example_id_def js_def)
  from deleteTask_effect [of one_task example_id later_readings later_readings] present unique
    deleteTask_effect [of one_task "js ''invalid_id_12345''" later_readings later_readings] absent
  show ?thesis
    by (simp add: tasks_one_task)
qed


subsection \<open>Editing a task\<close>

lemma storage_editTask: "storage (snd (editTask r i newText st)) = storage st"
  by (simp add: editTask_def split: option.splits sum.splits)

lemma currentFilter_editTask: "currentFilter (snd (editTask r i newText st)) = currentFilter st"
  by (simp add: editTask_def split: option.splits sum.splits)

lemma updateText_invalid: "\<not> isValidText newText \<Longrightarrow> updateText r newText t = Inl Error"
  by (cases newText) simp_all

lemma updateText_valid:
  "isValidText newText \<Longrightarrow>
     \<exists>s. newText = JStr s
        \<and> updateText r newText t = Inr (t\<lparr> text' := JStr (trim s), updatedAt := JStr (iso_updatedAt r) \<rparr>)"
  by (cases newText) simp_all

lemma editTask_fails:
  "(\<forall>t\<in>set (tasks st). id' t \<noteq> JStr i) \<or> \<not> isValidText newText \<Longrightarrow>
     editTask r i newText st = (None, st)"
proof (erule disjE)
  assume "\<forall>t\<in>set (tasks st). id' t \<noteq> JStr i"
  then have "find_by_id i (tasks st) = None" by (simp add: find_by_id_None)
  then show ?thesis by (simp add: editTask_def)
next
  assume "\<not> isValidText newText"
  then show ?thesis
    by (simp add: editTask_def updateText_invalid split: option.splits)
qed

text \<open>
  C8. \<open>editTask\<close> never writes to the storage (it does not call \<^verbatim>\<open>saveToStorage\<close>); when
  the id is absent or the new text is not valid it returns \<^verbatim>\<open>null\<close> and the state is
  unchanged; otherwise it returns the first task with the id, with its text set to the
  trimmed new text.
\<close>

theorem editTask_effect:
  "storage (snd (editTask r i newText st)) = storage st
   \<and> (((\<forall>t\<in>set (tasks st). id' t \<noteq> JStr i) \<or> \<not> isValidText newText) \<longrightarrow>
        editTask r i newText st = (None, st))
   \<and> ((\<exists>t\<in>set (tasks st). id' t = JStr i) \<and> isValidText newText \<longrightarrow>
        (\<exists>s n task.
           newText = JStr s \<and> n < length (tasks st) \<and> id' (tasks st ! n) = JStr i
           \<and> fst (editTask r i newText st) = Some task
           \<and> text' task = JStr (trim s)
           \<and> task = (tasks st ! n)\<lparr> text' := JStr (trim s), updatedAt := JStr (iso_updatedAt r) \<rparr>
           \<and> tasks (snd (editTask r i newText st)) = (tasks st)[n := task]))"
proof (intro conjI impI)
  show "storage (snd (editTask r i newText st)) = storage st"
    by (rule storage_editTask)
  show "editTask r i newText st = (None, st)"
    if "(\<forall>t\<in>set (tasks st). id' t \<noteq> JStr i) \<or> \<not> isValidText newText"
    using that by (rule editTask_fails)
  assume a: "(\<exists>t\<in>set (tasks st). id' t = JStr i) \<and> isValidText newText"
  then obtain n where n: "find_by_id i (tasks st) = Some n"
    using find_by_id_present by blast
  from a obtain s where s: "newText = JStr s"
    and u: "updateText r newText (tasks st ! n)
        = Inr ((tasks st ! n)\<lparr> text' := JStr (trim s), updatedAt := JStr (iso_updatedAt r) \<rparr>)"
    using updateText_valid by blast
  let ?task = "(tasks st ! n)\<lparr> text' := JStr (trim s), updatedAt := JStr (iso_updatedAt r) \<rparr>"
  have "newText = JStr s \<and> n < length (tasks st) \<and> id' (tasks st ! n) = JStr i
           \<and> fst (editTask r i newText st) = Some ?task
           \<and> text' ?task = JStr (trim s)
           \<and> ?task = (tasks st ! n)\<lparr> text' := JStr (trim s), updatedAt := JStr (iso_updatedAt r) \<rparr>
           \<and> tasks (snd (editTask r i newText st)) = (tasks st)[n := ?task]"
    using find_by_id_Some [OF n] s u by (simp add: editTask_def n)
  then show "\<exists>s n task.
           newText = JStr s \<and> n < length (tasks st) \<and> id' (tasks st ! n) = JStr i
           \<and> fst (editTask r i newText st) = Some task
           \<and> text' task = JStr (trim s)
           \<and> task = (tasks st ! n)\<lparr> text' := JStr (trim s), updatedAt := JStr (iso_updatedAt r) \<rparr>
           \<and> tasks (snd (editTask r i newText st)) = (tasks st)[n := task]"
    by blast
qed

theorem editTask_effect_witness:
  "storage (snd (editTask later_readings example_id (JStr (js '' Buy oat milk  '')) one_task))
     = storage one_task
   \<and> editTask later_readings (js ''invalid_id_12345'') (JStr (js '' Buy oat milk  '')) one_task
     = (None, one_task)
   \<and> editTask later_readings example_id (JStr (js ''   '')) one_task = (None, one_task)
   \<and> map_option text' (fst (editTask later_readings example_id (JStr (js '' Buy oat milk  '')) one_task))
     = Some (JStr (js ''Buy oat milk''))
   \<and> map text' (tasks (snd (editTask later_readings example_id (JStr (js '' Buy oat milk  '')) one_task)))
     = [JStr (js ''Buy oat milk'')]"
proof -
  have present: "\<exists>t\<in>set (tasks one_task). id' t = JStr example_id"
    by (simp add: tasks_one_task)
  have absent: "\<forall>t\<in>set (tasks one_task). id' t \<noteq> JStr (js ''invalid_id_12345'')"
    by (simp add: tasks_one_task example_id_def js_def)
  have valid: "isValidText (JStr (js '' Buy oat milk  ''))"
    by (simp add: trim_Buy_oat_milk) (simp add: js_def)
  have blank: "\<not> isValidText (JStr (js ''   ''))"
    by (simp add: trim_def js_def is_whitespace_def)
  from editTask_effect [of later_readings example_id "JStr (js '' Buy oat milk  '')" one_task]
    editTask_effect [of later_readings "js ''invalid_id_12345''" "JStr (js '' Buy oat milk  '')" one_task]
    editTask_effect [of later_readings example_id "JStr (js ''   '')" one_task]
    present absent valid blank
  show ?thesis
    by (auto simp: tasks_one_task trim_Buy_oat_milk)
qed


subsection \<open>The invariant of a task's text\<close>

lemma dropWhile_rev_dropWhile:
  "dropWhile P (rev (dropWhile P (rev (dropWhile P s)))) = rev (dropWhile P (rev (dropWhile P s)))"
proof (cases "dropWhile P (rev (dropWhile P s)) = []")
  case True
  show ?thesis unfolding True by simp
next
  case False
  define a where "a = dropWhile P s"
  define b where "b = dropWhile P (rev a)"
  from False have b: "b \<noteq> []" by (simp add: a_def b_def)
  then have a: "a \<noteq> []" by (auto simp: b_def)
  have "\<not> P (hd a)" using a unfolding a_def by (rule hd_dropWhile)
  moreover have "last b = last (rev a)"
  proof -
    have "rev a = takeWhile P (rev a) @ b" by (simp add: b_def)
    then show ?thesis using b by (metis last_appendR)
  qed
  moreover have "last (rev a) = hd a" using a by (simp add: last_rev)
  moreover have "hd (rev b) = last b" using b by (simp add: hd_rev)
  ultimately have "\<not> P (hd (rev b))" by simp
  with b have "dropWhile P (rev b) = rev b"
    by (cases "rev b") simp_all
  then show ?thesis by (simp add: a_def b_def)
qed

lemma trim_trim: "trim (trim s) = trim s"
  unfolding trim_def
  by (simp add: dropWhile_rev_dropWhile)

lemma length_trim_le: "length (trim s) \<le> length s"
proof -
  have "length (trim s) \<le> length (dropWhile is_whitespace s)"
    unfolding trim_def
    using length_dropWhile_le [of is_whitespace "rev (dropWhile is_whitespace s)"] by simp
  also have "\<dots> \<le> length s" by (rule length_dropWhile_le)
  finally show ?thesis .
qed

lemma text_invariant_trimmed:
  "isValidText (JStr s) \<Longrightarrow> text_invariant (t\<lparr> text' := JStr (trim s) \<rparr>)"
  by (auto simp: text_invariant_def trim_trim)







lemma tasks_empty_text_task:
  "tasks empty_text_task =
     [\<lparr> id' = JStr (js ''a''), text' = JStr [], completed = JUndefined,
         createdAt = JUndefined, updatedAt = JUndefined \<rparr>]"
  unfolding empty_text_task_def by (simp add: load_eval js_def parse_eval)





text \<open>
  C9, as stated, fails for a task that was loaded: \<open>loadFromStorage\<close> copies the text of
  a stored task as it is, and \<open>toggleTask\<close> changes such a task without looking at its
  text. After the start of the application on a stored task with the empty text, the task
  that \<open>toggleTask\<close> has changed and returned still has the empty text.
\<close>

theorem text_invariant_loaded_counterexample:
  "tasks empty_text_task =
     [\<lparr> id' = JStr (js ''a''), text' = JStr [], completed = JUndefined,
         createdAt = JUndefined, updatedAt = JUndefined \<rparr>]
   \<and> fst (toggleTask later_readings (js ''a'') empty_text_task)
       = Some \<lparr> id' = JStr (js ''a''), text' = JStr [], completed = JBool True,
                  createdAt = JUndefined, updatedAt = JStr (js ''2025-09-20T09:20:00.250Z'') \<rparr>
   \<and> tasks (run [Toggle later_readings (js ''a'')] empty_text_task)
       = [\<lparr> id' = JStr (js ''a''), text' = JStr [], completed = JBool True,
             createdAt = JUndefined, updatedAt = JStr (js ''2025-09-20T09:20:00.250Z'') \<rparr>]
   \<and> \<not> text_invariant (hd (tasks (run [Toggle later_readings (js ''a'')] empty_text_task)))"
proof -
  have found: "find_by_id (js ''a'') (tasks empty_text_task) = Some 0"
    by (simp add: tasks_empty_text_task find_by_id_def)
  show ?thesis
    by (simp add: run_def toggleTask_found [OF found] tasks_empty_text_task toggle_def
        later_readings_def text_invariant_def trim_Nil)
qed



subsection \<open>Loading\<close>

lemma JSON_parse_error: "JSON_parse s = Inl e \<Longrightarrow> e = SyntaxError"
  by (auto simp: JSON_parse_def split: option.splits if_splits)

lemma restore_no_tasks_array:
  assumes "js_truthy v" and "\<not> has_tasks_array v"
  shows "restore v st = (Inr False, st)"
proof (cases "get_prop v (js ''tasks'')")
  case (Inl e)
  with assms(1) show ?thesis by (cases v) simp_all
next
  case (Inr ts)
  with assms show ?thesis
    by (cases ts) (simp_all add: restore_def has_tasks_array_def)
qed

lemma parse_invalid_json_data: "JSON_parse (js ''invalid json data'') = Inl SyntaxError"
  by (simp add: js_def parse_eval)

lemma parse_empty_object: "JSON_parse (js ''{}'') = Inr (JObj [])"
  by (simp add: js_def parse_eval)







text \<open>
  C2, as stated, fails: only a SyntaxError of \<^verbatim>\<open>JSON.parse\<close> removes the stored item. The
  text \<^verbatim>\<open>{}\<close> parses to an object with no \<^verbatim>\<open>tasks\<close> array; \<open>loadFromStorage\<close> returns
  \<^verbatim>\<open>false\<close> and the item is still stored. And an item that is the empty string is taken
  for no data: the result is \<^verbatim>\<open>true\<close> and the item stays.
\<close>

theorem loadFromStorage_slot_counterexample:
  "JSON_parse (js ''{}'') = Inr (JObj [])
   \<and> fst (loadFromStorage (new_TaskList (storage_holding (js ''{}'')))) = False
   \<and> getItem (storage (snd (loadFromStorage (new_TaskList (storage_holding (js ''{}''))))))
       = Some (js ''{}'')
   \<and> getItem (storage_holding []) = Some []
   \<and> fst (loadFromStorage (new_TaskList (storage_holding []))) = True
   \<and> getItem (storage (snd (loadFromStorage (new_TaskList (storage_holding []))))) = Some []"
  by (simp add: parse_empty_object loadFromStorage_def loadFromStorage_try_def restore_def
      new_TaskList_def storage_holding_def getItem_def bind_err_def)
    (simp add: js_def)

text \<open>
  C2, amended. For every stored value that is not the empty string: if \<^verbatim>\<open>JSON.parse\<close>
  rejects it (as it does \<^verbatim>\<open>invalid json data\<close>), \<open>loadFromStorage\<close> returns \<^verbatim>\<open>false\<close>,
  removes the stored item and leaves the tasks in memory as they were, which at the start of
  the application is the empty list; if it parses to a value without a \<^verbatim>\<open>tasks\<close> array,
  \<open>loadFromStorage\<close> returns \<^verbatim>\<open>false\<close> and leaves the whole state, the stored item
  included, as it was. Nothing is thrown in either case: \<open>loadFromStorage\<close> returns a
  result.
\<close>

theorem loadFromStorage_unparseable:
  assumes "available (storage st)" and "getItem (storage st) = Some s" and "s \<noteq> []"
  shows "(JSON_parse s = Inl SyntaxError \<longrightarrow>
            loadFromStorage st = (False, st\<lparr> storage := removeItem (storage st) \<rparr>)
            \<and> getItem (storage (snd (loadFromStorage st))) = None
            \<and> tasks (snd (loadFromStorage st)) = tasks st)
         \<and> (\<forall>v. JSON_parse s = Inr v \<and> \<not> has_tasks_array v \<longrightarrow>
            loadFromStorage st = (False, st)
            \<and> getItem (storage (snd (loadFromStorage st))) = Some s)"
proof (intro conjI impI allI)
  assume "JSON_parse s = Inl SyntaxError"
  with assms show l: "loadFromStorage st = (False, st\<lparr> storage := removeItem (storage st) \<rparr>)"
    by (simp add: loadFromStorage_def loadFromStorage_try_def)
  show "getItem (storage (snd (loadFromStorage st))) = None"
    by (simp add: l getItem_def removeItem_def)
  show "tasks (snd (loadFromStorage st)) = tasks st"
    by (simp add: l)
next
  fix v
  assume v: "JSON_parse s = Inr v \<and> \<not> has_tasks_array v"
  show l: "loadFromStorage st = (False, st)"
  proof (cases "js_truthy v")
    case True
    with v have "restore v st = (Inr False, st)" by (simp add: restore_no_tasks_array)
    with assms v True show ?thesis
      by (simp add: loadFromStorage_def loadFromStorage_try_def)
  next
    case False
    with assms v show ?thesis
      by (simp add: loadFromStorage_def loadFromStorage_try_def)
  qed
  show "getItem (storage (snd (loadFromStorage st))) = Some s"
    using assms by (simp add: l)
qed


theorem loadFromStorage_unparseable_witness:
  "JSON_parse (js ''invalid json data'') = Inl SyntaxError
   \<and> loadFromStorage (new_TaskList (storage_holding (js ''invalid json data'')))
       = (False, new_TaskList empty_storage)
   \<and> tasks (startup (storage_holding (js ''invalid json data''))) = []
   \<and> getItem (storage (startup (storage_holding (js ''invalid json data'')))) = None"
proof -
  let ?st = "new_TaskList (storage_holding (js ''invalid json data''))"
  have 1: "available (storage ?st)"
    by (simp add: new_TaskList_def storage_holding_def)
  have 2: "getItem (storage ?st) = Some (js ''invalid json data'')"
    by (simp add: new_TaskList_def storage_holding_def getItem_def)
  have 3: "js ''invalid json data'' \<noteq> []"
    by (simp add: js_def)
  from loadFromStorage_unparseable [OF 1 2 3] parse_invalid_json_data
  show ?thesis
    by (simp add: startup_def)
      (simp add: new_TaskList_def storage_holding_def empty_storage_def removeItem_def getItem_def)
qed












subsection \<open>The arrays returned by getAllTasks and getFilteredTasks\<close>

lemma new_array_fresh:
  assumes "a < length (arrays h)"
  shows "fst (new_array elems h) \<noteq> a"
    and "arrays (snd (new_array elems h)) ! a = arrays h ! a"
    and "objects (snd (new_array elems h)) = objects h"
    and "arrays (snd (new_array elems h)) ! fst (new_array elems h) = elems"
    and "length (arrays (snd (new_array elems h))) = Suc (length (arrays h))"
  using assms by (simp_all add: new_array_def nth_append)

lemma getFilteredTasks_ref_new_array:
  "\<exists>elems. getFilteredTasks_ref f a h = new_array elems h
     \<and> set elems \<subseteq> set (arrays h ! a)
     \<and> map (\<lambda>p. objects h ! p) elems
         = getFilteredTasks f (st\<lparr> tasks := map (\<lambda>p. objects h ! p) (arrays h ! a) \<rparr>)"
  by (auto simp: getFilteredTasks_ref_def getFilteredTasks_def filter_map comp_def)

text \<open>
  C7, as stated, fails: the returned array is new, but its elements are the objects of the
  store. Setting \<^verbatim>\<open>completed\<close> on the first element of the result of \<^verbatim>\<open>getAllTasks\<close>
  changes the first task of the store's collection.
\<close>

theorem getAllTasks_shares_elements_counterexample:
  "fst (getAllTasks_ref 0 one_task_heap) = 1
   \<and> arrays (snd (getAllTasks_ref 0 one_task_heap)) ! 1 = [0]
   \<and> map completed (collection 0 (snd (getAllTasks_ref 0 one_task_heap))) = [JBool False]
   \<and> map completed (collection 0
        (write_object (arrays (snd (getAllTasks_ref 0 one_task_heap)) ! 1 ! 0)
           ((objects (snd (getAllTasks_ref 0 one_task_heap)) ! 0)\<lparr> completed := JBool True \<rparr>)
           (snd (getAllTasks_ref 0 one_task_heap)))) = [JBool True]"
  by (simp add: getAllTasks_ref_def new_array_def one_task_heap_def collection_def
      write_object_def tasks_one_task)

text \<open>
  C7, amended. For every filter value and every state of the collection, the array that
  \<open>getFilteredTasks\<close> (and \<open>getAllTasks\<close>) returns is a new array, different from
  \<^verbatim>\<open>this.tasks\<close>; it holds the tasks of the value-level \<open>getFilteredTasks\<close>; the call
  itself leaves the store's collection as it was, and so does every change of the content
  of the returned array. The references in it are references of \<^verbatim>\<open>this.tasks\<close>: the
  elements are shared with the store.
\<close>

theorem getFilteredTasks_ref_fresh_array:
  assumes "this_tasks < length (arrays h)"
  shows "fst (getFilteredTasks_ref f this_tasks h) \<noteq> this_tasks
     \<and> collection this_tasks (snd (getFilteredTasks_ref f this_tasks h)) = collection this_tasks h
     \<and> collection (fst (getFilteredTasks_ref f this_tasks h)) (snd (getFilteredTasks_ref f this_tasks h))
         = getFilteredTasks f (st\<lparr> tasks := collection this_tasks h \<rparr>)
     \<and> set (arrays (snd (getFilteredTasks_ref f this_tasks h)) ! fst (getFilteredTasks_ref f this_tasks h))
         \<subseteq> set (arrays h ! this_tasks)
     \<and> (\<forall>elems. collection this_tasks
            (write_array (fst (getFilteredTasks_ref f this_tasks h)) elems
               (snd (getFilteredTasks_ref f this_tasks h)))
          = collection this_tasks h)
     \<and> fst (getAllTasks_ref this_tasks h) \<noteq> this_tasks
     \<and> collection (fst (getAllTasks_ref this_tasks h)) (snd (getAllTasks_ref this_tasks h))
         = collection this_tasks h
     \<and> (\<forall>elems. collection this_tasks
            (write_array (fst (getAllTasks_ref this_tasks h)) elems (snd (getAllTasks_ref this_tasks h)))
          = collection this_tasks h)"
proof -
  obtain elems where e: "getFilteredTasks_ref f this_tasks h = new_array elems h"
    and sub: "set elems \<subseteq> set (arrays h ! this_tasks)"
    and content: "map (\<lambda>p. objects h ! p) elems
         = getFilteredTasks f (st\<lparr> tasks := map (\<lambda>p. objects h ! p) (arrays h ! this_tasks) \<rparr>)"
    using getFilteredTasks_ref_new_array by blast
  note fresh = new_array_fresh [OF assms]
  have kept: "collection this_tasks (snd (new_array xs h)) = collection this_tasks h" for xs
    by (simp add: collection_def fresh)
  have got: "collection (fst (new_array xs h)) (snd (new_array xs h))
      = map (\<lambda>p. objects h ! p) xs" for xs
    by (simp add: collection_def fresh)
  have written: "collection this_tasks (write_array (fst (new_array xs h)) ys (snd (new_array xs h)))
      = collection this_tasks h" for xs ys
    using assms by (simp add: collection_def write_array_def new_array_def nth_append)
  have c: "collection this_tasks h = map (\<lambda>p. objects h ! p) (arrays h ! this_tasks)"
    by (simp add: collection_def)
  show ?thesis
    unfolding e getAllTasks_ref_def kept got written
    using sub content by (simp add: fresh c)
qed


theorem getFilteredTasks_ref_fresh_array_witness:
  "fst (getFilteredTasks_ref (JStr (js ''active'')) 0 one_task_heap) = 1
   \<and> collection 1 (snd (getFilteredTasks_ref (JStr (js ''active'')) 0 one_task_heap)) = tasks one_task
   \<and> collection 0 (write_array 1 [] (snd (getFilteredTasks_ref (JStr (js ''active'')) 0 one_task_heap)))
       = tasks one_task
   \<and> collection 1 (write_array 1 [] (snd (getFilteredTasks_ref (JStr (js ''active'')) 0 one_task_heap)))
       = []"
proof -
  have wf: "0 < length (arrays one_task_heap)"
    by (simp add: one_task_heap_def)
  have res: "fst (getFilteredTasks_ref (JStr (js ''active'')) 0 one_task_heap) = 1"
    by (simp add: getFilteredTasks_ref_def new_array_def one_task_heap_def)
  have c0: "collection 0 one_task_heap = tasks one_task"
    by (simp add: collection_def one_task_heap_def tasks_one_task)
  have act: "getFilteredTasks (JStr (js ''active'')) (one_task\<lparr> tasks := tasks one_task \<rparr>) = tasks one_task"
    by (simp add: getFilteredTasks_def tasks_one_task)
  have emp: "collection 1 (write_array 1 [] (snd (getFilteredTasks_ref (JStr (js ''active'')) 0 one_task_heap))) = []"
    by (simp add: collection_def write_array_def getFilteredTasks_ref_def new_array_def one_task_heap_def)
  from getFilteredTasks_ref_fresh_array [OF wf, of "JStr (js ''active'')" one_task] res c0 act emp
  show ?thesis by simp
qed

subsection \<open>The parser consumes its input\<close>

lemma length_dropWhile_Cons:
  "dropWhile P s = c # cs \<Longrightarrow> length cs < length s"
  using length_dropWhile_le [of P s] by simp

lemma parse_string_chars_consumes:
  "parse_string_chars s = Some (k, r) \<Longrightarrow> length r < length s"
proof (induction s arbitrary: k rule: parse_string_chars.induct)
  case 1
  then show ?case by simp
next
  case (2 c cs)
  then show ?case
    by (fastforce simp: cons_result_def split: if_splits list.splits option.splits)
qed

lemma parse_number_consumes:
  "parse_number s = Some (n, r) \<Longrightarrow> length r < length s"
proof -
  assume a: "parse_number s = Some (n, r)"
  define sgn where "sgn = (case s of c # cs \<Rightarrow> if c = 0x2D then [c] else [] | [] \<Rightarrow> [])"
  define s1 where "s1 = drop (length sgn) s"
  define ip where "ip = takeWhile is_digit s1"
  define s2 where "s2 = dropWhile is_digit s1"
  from a have ip: "ip \<noteq> []" and r: "length r \<le> length s2"
    by (auto simp: parse_number_def Let_def sgn_def s1_def ip_def s2_def split: if_splits)
  have "length s1 = length ip + length s2"
    unfolding ip_def s2_def
    by (metis length_append takeWhile_dropWhile_id)
  with ip have "length s2 < length s1" by simp
  also have "length s1 \<le> length s" by (simp add: s1_def)
  finally show ?thesis using r by simp
qed

lemma parser_consumes:
  "(\<forall>v r. parse_value s = Some (v, r) \<longrightarrow> length r < length s)"
  "(\<forall>vs r. parse_elements s2 = Some (vs, r) \<longrightarrow> length r < length s2)"
  "(\<forall>kvs r. parse_members s3 = Some (kvs, r) \<longrightarrow> length r < length s3)"
proof (induction s and s2 and s3 rule: parse_value_parse_elements_parse_members.induct)
  case (1 s)
  show ?case
  proof (intro allI impI)
    fix v r
    assume a: "parse_value s = Some (v, r)"
    show "length r < length s"
    proof (cases "skip_ws s")
      case Nil
      with a show ?thesis by (simp add: parse_value.simps)
    next
      case (Cons c cs)
      then have cs: "length cs < length s"
        unfolding skip_ws_def by (rule length_dropWhile_Cons)
      consider (obj) "c = 0x7B" | (arr) "c \<noteq> 0x7B" "c = 0x5B" | (str) "c \<noteq> 0x7B" "c \<noteq> 0x5B" "c = 0x22"
        | (other) "c \<noteq> 0x7B" "c \<noteq> 0x5B" "c \<noteq> 0x22"
        by blast
      then show ?thesis
      proof cases
        case obj
        show ?thesis
        proof (cases "skip_ws cs")
          case Nil
          with a Cons obj show ?thesis by (simp add: parse_value.simps)
        next
          case inner: (Cons d ds)
          then have ds: "length ds < length cs"
            unfolding skip_ws_def by (rule length_dropWhile_Cons)
          show ?thesis
          proof (cases "d = 0x7D")
            case True
            with a Cons obj inner have "r = ds" by (simp add: parse_value.simps)
            with ds cs show ?thesis by simp
          next
            case False
            with a Cons obj inner obtain kvs where "parse_members (d # ds) = Some (kvs, r)"
              by (auto simp: parse_value.simps split: option.splits)
            with 1(1) [OF Cons obj inner False] have "length r < length (d # ds)" by simp
            with ds cs show ?thesis by simp
          qed
        qed
      next
        case arr
        show ?thesis
        proof (cases "skip_ws cs")
          case Nil
          with a Cons arr show ?thesis by (simp add: parse_value.simps)
        next
          case inner: (Cons d ds)
          then have ds: "length ds < length cs"
            unfolding skip_ws_def by (rule length_dropWhile_Cons)
          show ?thesis
          proof (cases "d = 0x5D")
            case True
            with a Cons arr inner have "r = ds" by (simp add: parse_value.simps)
            with ds cs show ?thesis by simp
          next
            case False
            with a Cons arr inner obtain vs where "parse_elements (d # ds) = Some (vs, r)"
              by (auto simp: parse_value.simps split: option.splits)
            with 1(2) [OF Cons arr(1) arr(2) inner False] have "length r < length (d # ds)" by simp
            with ds cs show ?thesis by simp
          qed
        qed
      next
        case str
        with a Cons obtain k where "parse_string_chars cs = Some (k, r)"
          by (auto simp: parse_value.simps split: option.splits)
        from parse_string_chars_consumes [OF this] cs show ?thesis by simp
      next
        case other
        have scs: "length (c # cs) \<le> length s"
          using length_dropWhile_le [of is_json_ws s] Cons by (simp add: skip_ws_def)
        show ?thesis
        proof (cases "c = 0x2D \<or> is_digit c")
          case True
          with a Cons other obtain n where "parse_number (c # cs) = Some (n, r)"
            by (auto simp: parse_value.simps split: option.splits)
          from parse_number_consumes [OF this] scs show ?thesis by simp
        next
          case False
          with a Cons other have "r = drop 4 (c # cs) \<or> r = drop 5 (c # cs)"
            by (auto simp: parse_value.simps split: if_splits)
          with scs show ?thesis by auto
        qed
      qed
    qed
  qed
next
  case (2 s)
  show ?case
  proof (intro allI impI)
    fix vs r
    assume a: "parse_elements s = Some (vs, r)"
    then obtain v r1 where v: "parse_value s = Some (v, r1)" and r1: "length r1 < length s"
      by (subst (asm) parse_elements.simps) (auto split: option.splits if_splits)
    from a v r1 obtain c cs where c: "skip_ws r1 = c # cs"
      by (subst (asm) parse_elements.simps) (auto split: list.splits)
    then have cs: "length cs < length r1"
      unfolding skip_ws_def by (rule length_dropWhile_Cons)
    show "length r < length s"
    proof (cases "c = 0x2C")
      case True
      with a v r1 c obtain ws where "parse_elements cs = Some (ws, r)"
        by (subst (asm) parse_elements.simps) (auto simp: cons_result_def split: option.splits)
      with 2(2) [OF v refl r1 c True] have "length r < length cs" by simp
      with cs r1 show ?thesis by simp
    next
      case False
      with a v r1 c have "r = cs"
        by (subst (asm) parse_elements.simps) (auto split: if_splits)
      with cs r1 show ?thesis by simp
    qed
  qed
next
  case (3 s)
  show ?case
  proof (intro allI impI)
    fix kvs r
    assume a: "parse_members s = Some (kvs, r)"
    from a obtain s1 where q: "skip_ws s = 0x22 # s1"
      by (subst (asm) parse_members.simps) (auto split: list.splits if_splits)
    then have l1: "length s1 < length s"
      unfolding skip_ws_def by (rule length_dropWhile_Cons)
    from a q obtain k s2 where k: "parse_string_chars s1 = Some (k, s2)"
      by (subst (asm) parse_members.simps) (auto split: option.splits)
    from parse_string_chars_consumes [OF k] have l2: "length s2 < length s1" .
    from a q k obtain s3 where colon: "skip_ws s2 = 0x3A # s3"
      by (subst (asm) parse_members.simps) (auto split: list.splits if_splits)
    then have l3: "length s3 < length s2"
      unfolding skip_ws_def by (rule length_dropWhile_Cons)
    from a q k colon obtain v r1 where v: "parse_value s3 = Some (v, r1)"
      and r1: "length r1 < length s3"
      by (subst (asm) parse_members.simps) (auto split: option.splits if_splits)
    from a q k colon v r1 obtain d ds where d: "skip_ws r1 = d # ds"
      by (subst (asm) parse_members.simps) (auto split: list.splits)
    then have l4: "length ds < length r1"
      unfolding skip_ws_def by (rule length_dropWhile_Cons)
    show "length r < length s"
    proof (cases "d = 0x2C")
      case True
      with a q k colon v r1 d obtain more_kvs where m: "parse_members ds = Some (more_kvs, r)"
        by (subst (asm) parse_members.simps) (auto simp: cons_result_def split: option.splits)
      have nq: "\<not> (0x22 :: jschar) \<noteq> 0x22" and nc: "\<not> (0x3A :: jschar) \<noteq> 0x3A"
        by simp_all
      have "length r < length ds"
        using 3(2) [OF q nq k refl colon nc v refl r1 d True] m by simp
      with l1 l2 l3 l4 r1 show ?thesis by simp
    next
      case False
      with a q k colon v r1 d have "r = ds"
        by (subst (asm) parse_members.simps) (auto split: if_splits)
      with l1 l2 l3 l4 r1 show ?thesis by simp
    qed
  qed
qed


lemma parse_elements_unguarded:
  "parse_elements s =
     (case parse_value s of
        None \<Rightarrow> None
      | Some (v, r) \<Rightarrow>
          (case skip_ws r of
             [] \<Rightarrow> None
           | c # cs \<Rightarrow>
               if c = 0x2C then cons_result v (parse_elements cs)
               else if c = 0x5D then Some ([v], cs)
               else None))"
proof (cases "parse_value s")
  case None
  then show ?thesis by (subst parse_elements.simps) simp
next
  case (Some a)
  obtain v r where a: "a = (v, r)" by (cases a)
  with Some parser_consumes(1) [of s] have "length r < length s" by simp
  with Some a show ?thesis by (subst parse_elements.simps) simp
qed

lemma parse_members_unguarded:
  "parse_members s =
     (case skip_ws s of
        [] \<Rightarrow> None
      | q # s1 \<Rightarrow>
          if q \<noteq> 0x22 then None
          else
            (case parse_string_chars s1 of
               None \<Rightarrow> None
             | Some (k, s2) \<Rightarrow>
                 (case skip_ws s2 of
                    [] \<Rightarrow> None
                  | c # s3 \<Rightarrow>
                      if c \<noteq> 0x3A then None
                      else
                        (case parse_value s3 of
                           None \<Rightarrow> None
                         | Some (v, r) \<Rightarrow>
                             (case skip_ws r of
                                [] \<Rightarrow> None
                              | d # ds \<Rightarrow>
                                  if d = 0x2C then cons_result (k, v) (parse_members ds)
                                  else if d = 0x7D then Some ([(k, v)], ds)
                                  else None)))))"
proof -
  have guard: "(if length r < length s3 then x else None) = x"
    if "parse_value s3 = Some (v, r)" for s3 v r and x :: "((jsstring \<times> jsval) list \<times> jsstring) option"
    using parser_consumes(1) [of s3] that by simp
  show ?thesis
    by (subst parse_members.simps)
      (simp add: guard split: list.splits option.splits)
qed

subsection \<open>JSON.parse after JSON.stringify\<close>

lemma unat_hex_digit:
  "n < 16 \<Longrightarrow> unat (hex_digit n) = (if n < 10 then 48 + n else 87 + n)"
  by (simp add: hex_digit_def unat_of_nat del: of_nat_add)

lemma hex_value_hex_digit: "n < 16 \<Longrightarrow> hex_value (hex_digit n) = Some n"
  by (simp add: hex_value_def word_le_nat_alt unat_hex_digit)

lemma hex_digits_sum:
  "4096 * (n div 4096) + 256 * (n div 256 mod 16) + 16 * (n div 16 mod 16) + n mod 16 = (n::nat)"
proof -
  have a: "n = 16 * (n div 16) + n mod 16" by simp
  have "n div 256 = n div 16 div 16" "n div 4096 = n div 256 div 16"
    by (simp_all add: div_mult2_eq [symmetric])
  then have b: "n div 16 = 16 * (n div 256) + n div 16 mod 16"
    and c: "n div 256 = 16 * (n div 4096) + n div 256 mod 16"
    by simp_all
  from a b c show ?thesis by linarith
qed

lemma hex4_unicode_escape:
  "hex4 (hex_digit (unat c div 4096)) (hex_digit (unat c div 256 mod 16))
        (hex_digit (unat c div 16 mod 16)) (hex_digit (unat c mod 16)) = Some (c :: jschar)"
proof -
  have "unat c < 2 ^ 16" using unsigned_less [of c] by simp
  then have "unat c div 4096 < 16" by simp
  then show ?thesis
    by (simp add: hex4_def hex_value_hex_digit hex_digits_sum)
qed

lemma parse_unicode_escape:
  "parse_string_chars (unicode_escape c @ xs) = cons_result c (parse_string_chars xs)"
  by (simp add: unicode_escape_def hex4_unicode_escape)

lemma surrogate_raw:
  "is_high_surrogate c \<or> is_low_surrogate c \<Longrightarrow> \<not> c < 0x20 \<and> c \<noteq> 0x22 \<and> c \<noteq> 0x5C"
  by (auto simp: is_high_surrogate_def is_low_surrogate_def word_less_nat_alt word_le_nat_alt)

lemma parse_escaped:
  "e \<noteq> 0x75 \<Longrightarrow> unescape e = Some u \<Longrightarrow>
     parse_string_chars (0x5C # e # xs) = cons_result u (parse_string_chars xs)"
  by simp

lemma parse_raw:
  "\<not> c < 0x20 \<Longrightarrow> c \<noteq> 0x22 \<Longrightarrow> c \<noteq> 0x5C \<Longrightarrow>
     parse_string_chars (c # xs) = cons_result c (parse_string_chars xs)"
  by simp

lemma parse_quote_chars:
  "parse_string_chars (quote_chars s @ 0x22 # rest) = Some (s, rest)"
proof (induction s rule: length_induct)
  case (1 s)
  show ?case
  proof (cases s)
    case Nil
    then show ?thesis by simp
  next
    case (Cons c cs)
    have IH: "parse_string_chars (quote_chars cs @ 0x22 # rest) = Some (cs, rest)"
      using 1 Cons by simp
    consider (bs) "c = 0x08" | (tab) "c = 0x09" | (lf) "c = 0x0A" | (ff) "c = 0x0C"
      | (cr) "c = 0x0D" | (quote) "c = 0x22" | (backslash) "c = 0x5C"
      | (other) "c \<noteq> 0x08" "c \<noteq> 0x09" "c \<noteq> 0x0A" "c \<noteq> 0x0C" "c \<noteq> 0x0D"
          "c \<noteq> 0x22" "c \<noteq> 0x5C"
      by blast
    then show ?thesis
    proof cases
      case bs
      have "parse_string_chars (0x5C # 0x62 # quote_chars cs @ 0x22 # rest) = Some (0x08 # cs, rest)"
        by (subst parse_escaped [where u = "0x08"]) (simp_all add: unescape_def IH cons_result_def)
      then show ?thesis by (simp add: Cons bs)
    next
      case tab
      have "parse_string_chars (0x5C # 0x74 # quote_chars cs @ 0x22 # rest) = Some (0x09 # cs, rest)"
        by (subst parse_escaped [where u = "0x09"]) (simp_all add: unescape_def IH cons_result_def)
      then show ?thesis by (simp add: Cons tab)
    next
      case lf
      have "parse_string_chars (0x5C # 0x6E # quote_chars cs @ 0x22 # rest) = Some (0x0A # cs, rest)"
        by (subst parse_escaped [where u = "0x0A"]) (simp_all add: unescape_def IH cons_result_def)
      then show ?thesis by (simp add: Cons lf)
    next
      case ff
      have "parse_string_chars (0x5C # 0x66 # quote_chars cs @ 0x22 # rest) = Some (0x0C # cs, rest)"
        by (subst parse_escaped [where u = "0x0C"]) (simp_all add: unescape_def IH cons_result_def)
      then show ?thesis by (simp add: Cons ff)
    next
      case cr
      have "parse_string_chars (0x5C # 0x72 # quote_chars cs @ 0x22 # rest) = Some (0x0D # cs, rest)"
        by (subst parse_escaped [where u = "0x0D"]) (simp_all add: unescape_def IH cons_result_def)
      then show ?thesis by (simp add: Cons cr)
    next
      case quote
      have "parse_string_chars (0x5C # 0x22 # quote_chars cs @ 0x22 # rest) = Some (0x22 # cs, rest)"
        by (subst parse_escaped [where u = "0x22"]) (simp_all add: unescape_def IH cons_result_def)
      then show ?thesis by (simp add: Cons quote)
    next
      case backslash
      have "parse_string_chars (0x5C # 0x5C # quote_chars cs @ 0x22 # rest) = Some (0x5C # cs, rest)"
        by (subst parse_escaped [where u = "0x5C"]) (simp_all add: unescape_def IH cons_result_def)
      then show ?thesis by (simp add: Cons backslash)
    next
      case other
      have escaped: "parse_string_chars (unicode_escape c @ quote_chars cs @ 0x22 # rest)
          = Some (c # cs, rest)"
        unfolding parse_unicode_escape IH by (simp add: cons_result_def)
      have raw: "parse_string_chars (c # quote_chars cs @ 0x22 # rest) = Some (c # cs, rest)"
        if "\<not> c < 0x20"
        unfolding parse_raw [OF that other(6,7)] IH by (simp add: cons_result_def)
      show ?thesis
      proof (cases "c < 0x20")
        case True
        with other escaped show ?thesis
          unfolding Cons by (simp only: quote_chars.simps if_False if_True append_assoc)
      next
        case printable: False
        show ?thesis
        proof (cases "is_high_surrogate c")
          case high: True
          show ?thesis
          proof (cases cs)
            case Nil
            from escaped have "parse_string_chars (unicode_escape c @ 0x22 # rest) = Some ([c], rest)"
              by (simp add: Nil)
            with other printable high show ?thesis
              unfolding Cons Nil
              by (simp only: quote_chars.simps if_False if_True list.case)
          next
            case inner: (Cons d ds)
            show ?thesis
            proof (cases "is_low_surrogate d")
              case low: True
              have IH2: "parse_string_chars (quote_chars ds @ 0x22 # rest) = Some (ds, rest)"
                using 1 Cons inner by simp
              from surrogate_raw [of d] low
              have d: "\<not> d < 0x20" "d \<noteq> 0x22" "d \<noteq> 0x5C" by simp_all
              have "parse_string_chars (c # d # quote_chars ds @ 0x22 # rest) = Some (c # d # ds, rest)"
                unfolding parse_raw [OF printable other(6,7)] parse_raw [OF d] IH2
                by (simp add: cons_result_def)
              with other printable high low show ?thesis
                unfolding Cons inner
                by (simp only: quote_chars.simps if_False if_True list.case append_Cons)
            next
              case False
              with other printable high escaped show ?thesis
                unfolding Cons inner
                by (simp only: quote_chars.simps if_False if_True list.case append_assoc)
            qed
          qed
        next
          case not_high: False
          show ?thesis
          proof (cases "is_low_surrogate c")
            case True
            with other printable not_high escaped show ?thesis
              unfolding Cons
              by (simp only: quote_chars.simps if_False if_True list.case append_assoc)
          next
            case False
            with other printable not_high raw [OF printable] show ?thesis
              unfolding Cons
              by (simp only: quote_chars.simps if_False if_True list.case append_Cons)
          qed
        qed
      qed
    qed
  qed
qed

lemma skip_ws_value_start: "value_start c \<Longrightarrow> skip_ws (c # cs) = c # cs"
  by (auto simp: value_start_def skip_ws_def is_json_ws_def)

lemma skip_ws_punctuation:
  "skip_ws (0x2C # cs) = 0x2C # cs" "skip_ws (0x5D # cs) = 0x5D # cs"
  "skip_ws (0x7D # cs) = 0x7D # cs" "skip_ws (0x3A # cs) = 0x3A # cs"
  by (simp_all add: skip_ws_def is_json_ws_def)

lemma parse_value_literals:
  "parse_value (js ''null'' @ rest) = Some (JNull, rest)"
  "parse_value (js ''true'' @ rest) = Some (JBool True, rest)"
  "parse_value (js ''false'' @ rest) = Some (JBool False, rest)"
  by (subst parse_value.simps, simp add: js_def skip_ws_def is_json_ws_def is_digit_def)+

lemma parse_value_string:
  "parse_value (QuoteJSONString s @ rest) = Some (JStr s, rest)"
  by (subst parse_value.simps)
    (simp add: QuoteJSONString_def skip_ws_def is_json_ws_def parse_quote_chars)

lemma parse_value_empty_array: "parse_value (0x5B # 0x5D # rest) = Some (JArr [], rest)"
  by (subst parse_value.simps) (simp add: skip_ws_def is_json_ws_def)

lemma parse_value_empty_object: "parse_value (0x7B # 0x7D # rest) = Some (JObj [], rest)"
  by (subst parse_value.simps) (simp add: skip_ws_def is_json_ws_def)

lemma parse_value_array:
  "value_start d \<Longrightarrow> parse_elements (d # ds) = Some (vs, r) \<Longrightarrow>
     parse_value (0x5B # d # ds) = Some (JArr vs, r)"
  by (subst parse_value.simps)
    (auto simp: skip_ws_def is_json_ws_def value_start_def)

lemma parse_value_object:
  "parse_members (0x22 # ds) = Some (kvs, r) \<Longrightarrow>
     parse_value (0x7B # 0x22 # ds)
       = Some (JObj (own_property_order (define_properties [] kvs)), r)"
  by (subst parse_value.simps) (simp add: skip_ws_def is_json_ws_def)

lemma parse_elements_last:
  "parse_value (out @ 0x5D # rest) = Some (v, 0x5D # rest) \<Longrightarrow> out \<noteq> [] \<Longrightarrow>
     parse_elements (out @ 0x5D # rest) = Some ([v], rest)"
  by (subst parse_elements.simps) (simp add: skip_ws_punctuation)

lemma parse_elements_more:
  "parse_value (out @ 0x2C # nxt) = Some (v, 0x2C # nxt) \<Longrightarrow> out \<noteq> [] \<Longrightarrow>
     parse_elements nxt = Some (vs, rest) \<Longrightarrow>
     parse_elements (out @ 0x2C # nxt) = Some (v # vs, rest)"
  by (subst parse_elements.simps) (simp add: skip_ws_punctuation cons_result_def)

lemma parse_members_last:
  "parse_value (out @ 0x7D # rest) = Some (v, 0x7D # rest) \<Longrightarrow> out \<noteq> [] \<Longrightarrow>
     parse_members (QuoteJSONString k @ 0x3A # out @ 0x7D # rest) = Some ([(k, v)], rest)"
  by (subst parse_members.simps)
    (simp add: QuoteJSONString_def skip_ws_def is_json_ws_def parse_quote_chars)

lemma parse_members_more:
  "parse_value (out @ 0x2C # nxt) = Some (v, 0x2C # nxt) \<Longrightarrow> out \<noteq> [] \<Longrightarrow>
     parse_members nxt = Some (kvs, rest) \<Longrightarrow>
     parse_members (QuoteJSONString k @ 0x3A # out @ 0x2C # nxt) = Some ((k, v) # kvs, rest)"
  by (subst parse_members.simps)
    (simp add: QuoteJSONString_def skip_ws_def is_json_ws_def parse_quote_chars cons_result_def)

lemma put_property_new:
  "k \<notin> fst ` set obj \<Longrightarrow> put_property k v obj = obj @ [(k, v)]"
  by (induction obj) auto

lemma define_properties_distinct:
  "distinct (map fst (obj @ kvs)) \<Longrightarrow> define_properties obj kvs = obj @ kvs"
proof (induction kvs arbitrary: obj)
  case Nil
  then show ?case by simp
next
  case (Cons kv kvs)
  obtain k v where kv: "kv = (k, v)" by (cases kv)
  from Cons.prems kv have new: "k \<notin> fst ` set obj" by auto
  from Cons.prems kv have "distinct (map fst ((obj @ [(k, v)]) @ kvs))" by simp
  from Cons.IH [OF this] show ?case
    by (simp add: kv put_property_new [OF new])
qed

lemma json_exact_properties_no_index:
  "json_exact_properties kvs \<Longrightarrow> filter (\<lambda>p. is_array_index (fst p)) kvs = []"
  by (induction kvs) auto

lemma own_property_order_exact:
  "json_exact_properties kvs \<Longrightarrow> own_property_order kvs = kvs"
proof -
  assume exact: "json_exact_properties kvs"
  then have "filter (\<lambda>p. is_array_index (fst p)) kvs = []"
    by (rule json_exact_properties_no_index)
  moreover from this have "filter (\<lambda>p. \<not> is_array_index (fst p)) kvs = kvs"
    by (simp add: filter_empty_conv filter_id_conv)
  ultimately show ?thesis
    by (simp add: own_property_order_def)
qed

lemma join_Cons:
  "join (x # xs) = (if xs = [] then x else x @ 0x2C # join xs)"
  by (cases xs) simp_all

lemma serialize_elements_Nil_iff: "serialize_elements vs = [] \<longleftrightarrow> vs = []"
  by (cases vs) simp_all

lemma round_trip_induction:
  "(json_exact v \<longrightarrow> round_trips v)"
  "(json_exact_elements vs \<longrightarrow> vs \<noteq> [] \<longrightarrow>
      join (serialize_elements vs) \<noteq> [] \<and> value_start (hd (join (serialize_elements vs)))
      \<and> (\<forall>rest. parse_elements (join (serialize_elements vs) @ 0x5D # rest) = Some (vs, rest)))"
  "(json_exact_properties kvs \<longrightarrow> kvs \<noteq> [] \<longrightarrow>
      join (serialize_properties kvs) \<noteq> [] \<and> hd (join (serialize_properties kvs)) = 0x22
      \<and> (\<forall>rest. parse_members (join (serialize_properties kvs) @ 0x7D # rest) = Some (kvs, rest)))"
proof (induction v and vs and kvs rule: json_exact_json_exact_elements_json_exact_properties.induct)
  case 1
  then show ?case by simp
next
  case 2
  show ?case
    by (simp add: round_trips_def parse_value_literals) (simp add: js_def value_start_def)
next
  case (3 b)
  show ?case
    by (cases b) (simp_all add: round_trips_def parse_value_literals, simp_all add: js_def value_start_def)
next
  case (4 n)
  then show ?case by simp
next
  case (5 s)
  show ?case
    by (simp add: round_trips_def parse_value_string) (simp add: QuoteJSONString_def value_start_def)
next
  case (6 vs)
  show ?case
  proof (cases "vs = []")
    case True
    then show ?thesis
      by (simp add: round_trips_def parse_value_empty_array value_start_def)
  next
    case False
    show ?thesis
    proof
      assume "json_exact (JArr vs)"
      with 6 False have nonempty: "join (serialize_elements vs) \<noteq> []"
        and start: "value_start (hd (join (serialize_elements vs)))"
        and parse: "\<And>rest. parse_elements (join (serialize_elements vs) @ 0x5D # rest) = Some (vs, rest)"
        by simp_all
      from nonempty obtain d ds where d: "join (serialize_elements vs) = d # ds"
        by (cases "join (serialize_elements vs)") auto
      have "parse_value (0x5B # d # (ds @ 0x5D # rest)) = Some (JArr vs, rest)" for rest
        using start parse [of rest] unfolding d
        by (intro parse_value_array) simp_all
      then show "round_trips (JArr vs)"
        by (simp add: round_trips_def d value_start_def)
    qed
  qed
next
  case (7 kvs)
  show ?case
  proof (cases "kvs = []")
    case True
    then show ?thesis
      by (simp add: round_trips_def parse_value_empty_object value_start_def)
  next
    case False
    show ?thesis
    proof
      assume exact: "json_exact (JObj kvs)"
      with 7 False have nonempty: "join (serialize_properties kvs) \<noteq> []"
        and start: "hd (join (serialize_properties kvs)) = 0x22"
        and parse: "\<And>rest. parse_members (join (serialize_properties kvs) @ 0x7D # rest) = Some (kvs, rest)"
        by simp_all
      from nonempty start obtain ds where d: "join (serialize_properties kvs) = 0x22 # ds"
        by (cases "join (serialize_properties kvs)") auto
      from exact have "own_property_order (define_properties [] kvs) = kvs"
        by (simp add: define_properties_distinct own_property_order_exact)
      then have "parse_value (0x7B # 0x22 # (ds @ 0x7D # rest)) = Some (JObj kvs, rest)" for rest
        using parse [of rest] parse_value_object [of "ds @ 0x7D # rest" kvs rest] unfolding d
        by simp
      then show "round_trips (JObj kvs)"
        by (simp add: round_trips_def d value_start_def)
    qed
  qed
next
  case 8
  then show ?case by simp
next
  case (9 v vs)
  show ?case
  proof (intro impI)
    assume exact: "json_exact_elements (v # vs)"
    with 9 have "round_trips v" by simp
    then obtain out where out: "SerializeJSONProperty v = Some out" "out \<noteq> []"
      "value_start (hd out)" "\<And>rest. parse_value (out @ rest) = Some (v, rest)"
      unfolding round_trips_def by blast
    show "join (serialize_elements (v # vs)) \<noteq> []
      \<and> value_start (hd (join (serialize_elements (v # vs))))
      \<and> (\<forall>rest. parse_elements (join (serialize_elements (v # vs)) @ 0x5D # rest) = Some (v # vs, rest))"
    proof (cases "vs = []")
      case True
      with out show ?thesis
        by (simp add: parse_elements_last)
    next
      case False
      with 9 exact
      have parse: "\<And>rest. parse_elements (join (serialize_elements vs) @ 0x5D # rest) = Some (vs, rest)"
        by simp
      have j: "join (serialize_elements (v # vs)) = out @ 0x2C # join (serialize_elements vs)"
        using False by (simp add: out(1) join_Cons serialize_elements_Nil_iff)
      have "parse_elements (out @ 0x2C # join (serialize_elements vs) @ 0x5D # rest)
          = Some (v # vs, rest)" for rest
        using out(4) [of "0x2C # join (serialize_elements vs) @ 0x5D # rest"] out(2) parse [of rest]
        by (rule parse_elements_more)
      with out show ?thesis
        unfolding j by simp
    qed
  qed
next
  case 10
  then show ?case by simp
next
  case (11 k v kvs)
  show ?case
  proof (intro impI)
    assume exact: "json_exact_properties ((k, v) # kvs)"
    with 11 have "round_trips v" by simp
    then obtain out where out: "SerializeJSONProperty v = Some out" "out \<noteq> []"
      "value_start (hd out)" "\<And>rest. parse_value (out @ rest) = Some (v, rest)"
      unfolding round_trips_def by blast
    have q: "QuoteJSONString k = 0x22 # quote_chars k @ [0x22]"
      by (simp add: QuoteJSONString_def)
    show "join (serialize_properties ((k, v) # kvs)) \<noteq> []
      \<and> hd (join (serialize_properties ((k, v) # kvs))) = 0x22
      \<and> (\<forall>rest. parse_members (join (serialize_properties ((k, v) # kvs)) @ 0x7D # rest)
            = Some ((k, v) # kvs, rest))"
    proof (cases "kvs = []")
      case True
      have "parse_members (QuoteJSONString k @ 0x3A # out @ 0x7D # rest) = Some ([(k, v)], rest)" for rest
        using out(4) [of "0x7D # rest"] out(2) by (rule parse_members_last)
      with True out show ?thesis
        by (simp add: q)
    next
      case False
      with 11 exact
      have nonempty: "join (serialize_properties kvs) \<noteq> []"
        and parse: "\<And>rest. parse_members (join (serialize_properties kvs) @ 0x7D # rest) = Some (kvs, rest)"
        by simp_all
      then have ne: "serialize_properties kvs \<noteq> []" by auto
      have j: "join (serialize_properties ((k, v) # kvs))
          = (QuoteJSONString k @ 0x3A # out) @ 0x2C # join (serialize_properties kvs)"
        using ne by (simp add: out(1) join_Cons)
      have "parse_members (QuoteJSONString k @ 0x3A # out @ 0x2C # join (serialize_properties kvs) @ 0x7D # rest)
          = Some ((k, v) # kvs, rest)" for rest
        using out(4) [of "0x2C # join (serialize_properties kvs) @ 0x7D # rest"] out(2) parse [of rest]
        by (rule parse_members_more)
      then show ?thesis
        unfolding j by (simp add: q)
    qed
  qed
qed

lemma JSON_round_trip:
  assumes "json_exact v"
  shows "\<exists>out. JSON_stringify v = Some out \<and> out \<noteq> [] \<and> JSON_parse out = Inr v"
proof -
  from round_trip_induction(1) [of v] assms have "round_trips v" by simp
  then obtain out where out: "SerializeJSONProperty v = Some out" "out \<noteq> []"
    "parse_value (out @ []) = Some (v, [])"
    unfolding round_trips_def by blast
  then show ?thesis
    by (simp add: JSON_stringify_def JSON_parse_def skip_ws_def)
qed

lemma is_string_exact: "is_string v \<Longrightarrow> json_exact v"
  by (cases v) simp_all

lemma is_boolean_exact: "is_boolean v \<Longrightarrow> json_exact v"
  by (cases v) simp_all


subsection \<open>Saving and loading\<close>

lemma json_exact_toObject: "typed_task t \<Longrightarrow> json_exact (toObject t)"
  by (simp add: toObject_def typed_task_def is_string_exact is_boolean_exact)
    (simp add: js_def is_array_index_def is_digit_def)

lemma json_exact_elements_toObject:
  "\<forall>t\<in>set ts. typed_task t \<Longrightarrow> json_exact_elements (map toObject ts)"
  by (induction ts) (simp_all add: json_exact_toObject)

lemma json_exact_dataToSave:
  "\<forall>t\<in>set (tasks st). typed_task t \<Longrightarrow> is_string (currentFilter st) \<Longrightarrow>
     json_exact (dataToSave r st)"
  by (simp add: dataToSave_def json_exact_elements_toObject is_string_exact)
    (simp add: js_def is_array_index_def is_digit_def)

lemma fromObject_toObject: "typed_task t \<Longrightarrow> fromObject (toObject t) = Inr t"
  by (simp add: fromObject_def toObject_def bind_err_def) (simp add: js_def)

lemma map_err_fromObject_toObject:
  "\<forall>t\<in>set ts. typed_task t \<Longrightarrow> map_err fromObject (map toObject ts) = Inr ts"
  by (induction ts) (simp_all add: fromObject_toObject bind_err_def)

lemma restore_dataToSave:
  assumes "\<forall>t\<in>set (tasks st). typed_task t" and "js_truthy (currentFilter st)"
  shows "restore (dataToSave r st) st2
     = (Inr True, st2\<lparr> tasks := tasks st, currentFilter := currentFilter st \<rparr>)"
  using assms
  by (simp add: restore_def restore_settings_def version_message_def dataToSave_def bind_err_def
      map_err_fromObject_toObject js_def)

lemma saveToStorage_success:
  assumes "fst (saveToStorage r st) = True"
  shows "available (storage st)
     \<and> (\<exists>out. todoApp (storage (snd (saveToStorage r st)))
            = Some (case JSON_stringify (dataToSave r st) of None \<Rightarrow> js ''undefined'' | Some s \<Rightarrow> s))
     \<and> available (storage (snd (saveToStorage r st)))"
  using assms
  by (auto simp: saveToStorage_def setItem_def split: if_splits sum.splits)

lemma save_load:
  assumes typed: "\<forall>t\<in>set (tasks st). typed_task t"
    and filter: "is_string (currentFilter st)" "js_truthy (currentFilter st)"
    and saved: "fst (saveToStorage r st) = True"
    and same: "storage st2 = storage (snd (saveToStorage r st))"
  shows "loadFromStorage st2
     = (True, st2\<lparr> tasks := tasks st, currentFilter := currentFilter st \<rparr>)"
proof -
  from JSON_round_trip [OF json_exact_dataToSave [OF typed filter(1)]]
  obtain out where out: "JSON_stringify (dataToSave r st) = Some out" "out \<noteq> []"
    "JSON_parse out = Inr (dataToSave r st)"
    by blast
  from saveToStorage_success [OF saved] out(1) same
  have st2: "available (storage st2)" "getItem (storage st2) = Some out"
    by (simp_all add: getItem_def)
  have truthy: "js_truthy (dataToSave r st)"
    by (simp add: dataToSave_def)
  show ?thesis
    by (simp add: loadFromStorage_def loadFromStorage_try_def st2 out truthy
        restore_dataToSave [OF typed filter(2)])
qed

lemma valid_task_typed: "valid_task t \<Longrightarrow> typed_task t"
  by (cases "text' t") (simp_all add: valid_task_def typed_task_def)

lemmas stringify_eval = JSON_stringify_def QuoteJSONString_def is_high_surrogate_def
  is_low_surrogate_def dataToSave_def toObject_def

lemma saved_record:
  \<open>JSON_stringify (dataToSave later_readings saved_state) =
     Some (js ''{"tasks":[{"id":"task_1758360000000_k3j9x0q2a","text":"Buy milk","completed":false,"createdAt":"2025-09-20T09:20:00.000Z","updatedAt":"2025-09-20T09:20:00.000Z"}],"version":"1.0.0","lastSaved":"2025-09-20T09:20:00.250Z","settings":{"currentFilter":"active"}}'')\<close>
  by (simp add: stringify_eval saved_state_def tasks_one_task later_readings_def example_id_def js_def)

lemma saveToStorage_saved_state: "fst (saveToStorage later_readings saved_state) = True"
proof -
  have "available (storage saved_state)" "quota (storage saved_state) = 5000000"
    by (simp_all add: saved_state_def empty_storage_def)
  then show ?thesis
    by (simp add: saveToStorage_def setItem_def saved_record) (simp add: js_def)
qed

text \<open>
  C1. For every valid collection and valid filter: when \<open>saveToStorage\<close> succeeds,
  \<open>loadFromStorage\<close> on the storage it wrote, from any state in memory (a new page load,
  for one), succeeds and sets the tasks to the saved ones, equal in every field, and the
  filter to the saved one.
\<close>

theorem save_load_round_trip:
  assumes "valid_collection (tasks st)" and "valid_filter (currentFilter st)"
    and "fst (saveToStorage r st) = True"
    and "storage st2 = storage (snd (saveToStorage r st))"
  shows "loadFromStorage st2
     = (True, st2\<lparr> tasks := tasks st, currentFilter := currentFilter st \<rparr>)"
proof (rule save_load)
  show "\<forall>t\<in>set (tasks st). typed_task t"
    using assms(1) by (simp add: valid_collection_def valid_task_typed)
  show "is_string (currentFilter st)" "js_truthy (currentFilter st)"
    using assms(2) by (auto simp: valid_filter_def js_def)
qed (fact assms(3) assms(4))+



theorem save_load_round_trip_witness:
  "loadFromStorage (new_TaskList (storage (snd (saveToStorage later_readings saved_state))))
     = (True, \<lparr> tasks = tasks one_task, currentFilter = JStr (js ''active''),
                 storage = storage (snd (saveToStorage later_readings saved_state)) \<rparr>)
   \<and> tasks one_task =
     [\<lparr> id' = JStr example_id, text' = JStr (js ''Buy milk''), completed = JBool False,
         createdAt = JStr (js ''2025-09-20T09:20:00.000Z''),
         updatedAt = JStr (js ''2025-09-20T09:20:00.000Z'') \<rparr>]"
proof -
  have valid: "valid_collection (tasks saved_state)"
    by (simp add: valid_collection_def valid_task_def saved_state_def tasks_one_task trim_Buy_milk')
      (simp add: js_def)
  have filter: "valid_filter (currentFilter saved_state)"
    by (simp add: valid_filter_def saved_state_def)
  have same: "storage (new_TaskList (storage (snd (saveToStorage later_readings saved_state))))
      = storage (snd (saveToStorage later_readings saved_state))"
    by (simp add: new_TaskList_def)
  from save_load_round_trip [OF valid filter saveToStorage_saved_state same] tasks_one_task
  show ?thesis
    by (simp add: new_TaskList_def saved_state_def)
qed

end
